theory Spec2Isabelle
  imports Complex_Main "HOL-Library.Log_Nat"
begin

section \<open>JavaScript numbers\<close>

text \<open>
  The metrics calculator (\<^verbatim>\<open>src/utils/metrics-calculator.ts\<close>) computes with JavaScript
  numbers, that is IEEE-754 binary64 values. A number is modelled as a rational (the exact
  value of a finite double) or one of the three special values. Every arithmetic
  operation computes the exact rational result and rounds it to the nearest double, ties
  to even, overflowing to an infinity. Negative zero is identified with zero: the code
  under study never divides by a zero that could be negative and never inspects the sign
  of a zero.
\<close>

datatype jsnum = Fin rat | PInf | NInf | NaN

definition ilog2 :: "rat \<Rightarrow> int" where
  \<comment> \<open>the binary exponent of a positive rational: the largest \<open>e\<close> with \<open>2^e \<le> x\<close>\<close>
  "ilog2 x = (case quotient_of x of (p, q) \<Rightarrow>
     (let k = bitlen p - bitlen q in if 2 powi k \<le> x then k else k - 1))"

definition round_even :: "rat \<Rightarrow> int" where
  \<comment> \<open>nearest integer, ties to the even one\<close>
  "round_even y = (let f = \<lfloor>y\<rfloor>; d = y - of_int f in
     if d < 1 / 2 then f else if 1 / 2 < d then f + 1 else if even f then f else f + 1)"

definition rnd :: "rat \<Rightarrow> jsnum" where
  \<comment> \<open>binary64 rounding: 53 significant bits, exponents from -1022 (below that the spacing
      stays \<open>2^-1074\<close>), results of magnitude \<open>2^1024\<close> and more become infinite\<close>
  "rnd x = (if x = 0 then Fin 0 else
     (let a = \<bar>x\<bar>; e = max (ilog2 a) (- 1022); u = 2 powi (e - 52);
          v = of_int (round_even (a / u)) * u
      in if 2 powi 1024 \<le> v then (if 0 < x then PInf else NInf) else Fin (sgn x * v)))"

definition num_of_nat :: "nat \<Rightarrow> jsnum" where
  \<comment> \<open>a length or a count as a number; lengths of JavaScript arrays and strings are below
      \<open>2^32\<close>, where every integer is a double\<close>
  "num_of_nat n = Fin (of_nat n)"

fun jneg :: "jsnum \<Rightarrow> jsnum" where
  "jneg (Fin a) = Fin (- a)"
| "jneg PInf = NInf"
| "jneg NInf = PInf"
| "jneg NaN = NaN"

fun jabs :: "jsnum \<Rightarrow> jsnum" where
  "jabs (Fin a) = Fin \<bar>a\<bar>"
| "jabs PInf = PInf"
| "jabs NInf = PInf"
| "jabs NaN = NaN"

fun jadd :: "jsnum \<Rightarrow> jsnum \<Rightarrow> jsnum" where
  "jadd (Fin a) (Fin b) = rnd (a + b)"
| "jadd NaN y = NaN"
| "jadd x NaN = NaN"
| "jadd PInf NInf = NaN"
| "jadd NInf PInf = NaN"
| "jadd PInf y = PInf"
| "jadd x PInf = PInf"
| "jadd NInf y = NInf"
| "jadd x NInf = NInf"

definition jsub :: "jsnum \<Rightarrow> jsnum \<Rightarrow> jsnum" where
  "jsub x y = jadd x (jneg y)"

fun jmul :: "jsnum \<Rightarrow> jsnum \<Rightarrow> jsnum" where
  "jmul (Fin a) (Fin b) = rnd (a * b)"
| "jmul NaN y = NaN"
| "jmul x NaN = NaN"
| "jmul (Fin a) PInf = (if a = 0 then NaN else if 0 < a then PInf else NInf)"
| "jmul (Fin a) NInf = (if a = 0 then NaN else if 0 < a then NInf else PInf)"
| "jmul PInf (Fin b) = (if b = 0 then NaN else if 0 < b then PInf else NInf)"
| "jmul NInf (Fin b) = (if b = 0 then NaN else if 0 < b then NInf else PInf)"
| "jmul PInf PInf = PInf"
| "jmul PInf NInf = NInf"
| "jmul NInf PInf = NInf"
| "jmul NInf NInf = PInf"

fun jdiv :: "jsnum \<Rightarrow> jsnum \<Rightarrow> jsnum" where
  "jdiv (Fin a) (Fin b) =
     (if b = 0 then (if a = 0 then NaN else if 0 < a then PInf else NInf) else rnd (a / b))"
| "jdiv NaN y = NaN"
| "jdiv x NaN = NaN"
| "jdiv (Fin a) PInf = Fin 0"
| "jdiv (Fin a) NInf = Fin 0"
| "jdiv PInf (Fin b) = (if 0 \<le> b then PInf else NInf)"
| "jdiv NInf (Fin b) = (if 0 \<le> b then NInf else PInf)"
| "jdiv PInf PInf = NaN"
| "jdiv PInf NInf = NaN"
| "jdiv NInf PInf = NaN"
| "jdiv NInf NInf = NaN"

fun jle :: "jsnum \<Rightarrow> jsnum \<Rightarrow> bool" where
  \<comment> \<open>\<^verbatim>\<open>x <= y\<close>: false as soon as one side is NaN\<close>
  "jle (Fin a) (Fin b) = (a \<le> b)"
| "jle NaN y = False"
| "jle x NaN = False"
| "jle NInf y = True"
| "jle x PInf = True"
| "jle PInf y = False"
| "jle x NInf = False"

fun jlt :: "jsnum \<Rightarrow> jsnum \<Rightarrow> bool" where
  \<comment> \<open>\<^verbatim>\<open>x < y\<close>; \<^verbatim>\<open>x > y\<close> is \<open>jlt y x\<close>\<close>
  "jlt (Fin a) (Fin b) = (a < b)"
| "jlt NaN y = False"
| "jlt x NaN = False"
| "jlt PInf y = False"
| "jlt x NInf = False"
| "jlt NInf y = True"
| "jlt x PInf = True"

fun jmax :: "jsnum \<Rightarrow> jsnum \<Rightarrow> jsnum" where
  \<comment> \<open>\<^verbatim>\<open>Math.max\<close> of two numbers: NaN when one of them is\<close>
  "jmax (Fin a) (Fin b) = Fin (max a b)"
| "jmax NaN y = NaN"
| "jmax x NaN = NaN"
| "jmax PInf y = PInf"
| "jmax x PInf = PInf"
| "jmax NInf y = y"
| "jmax x NInf = x"

fun jmin :: "jsnum \<Rightarrow> jsnum \<Rightarrow> jsnum" where
  \<comment> \<open>\<^verbatim>\<open>Math.min\<close> of two numbers: NaN when one of them is\<close>
  "jmin (Fin a) (Fin b) = Fin (min a b)"
| "jmin NaN y = NaN"
| "jmin x NaN = NaN"
| "jmin NInf y = NInf"
| "jmin x NInf = NInf"
| "jmin PInf y = y"
| "jmin x PInf = x"

fun in_unit :: "jsnum \<Rightarrow> bool" where
  \<comment> \<open>a number of the closed interval from 0 to 1\<close>
  "in_unit (Fin a) = (0 \<le> a \<and> a \<le> 1)"
| "in_unit PInf = False"
| "in_unit NInf = False"
| "in_unit NaN = False"

section \<open>JavaScript values\<close>

text \<open>
  The comparator takes values of type \<^verbatim>\<open>any\<close>. The values modelled are those of JSON
  (null, booleans, numbers, strings, arrays, objects), \<^verbatim>\<open>undefined\<close>, and function
  objects, which a property read reaches through a prototype. A string is the list of its
  code units. An object is the list of its own enumerable properties in the order
  \<^verbatim>\<open>Object.keys\<close> enumerates them; its keys are distinct.
\<close>

datatype jsval =
    JUndefined
  | JNull
  | JBool (the_bool: bool)
  | JNum (the_num: jsnum)
  | JStr (the_str: string)
  | JArr (items: "jsval list")
  | JObj (props: "(string \<times> jsval) list")
  | JFunction string

datatype jstype = TUndefined | TObject | TBoolean | TNumber | TString | TFunction

fun typeof :: "jsval \<Rightarrow> jstype" where
  "typeof JUndefined = TUndefined"
| "typeof JNull = TObject"
| "typeof (JBool b) = TBoolean"
| "typeof (JNum n) = TNumber"
| "typeof (JStr s) = TString"
| "typeof (JArr xs) = TObject"
| "typeof (JObj kvs) = TObject"
| "typeof (JFunction f) = TFunction"

fun truthy :: "jsval \<Rightarrow> bool" where
  \<comment> \<open>the conversion to boolean that \<^verbatim>\<open>!x\<close> and \<^verbatim>\<open>x && y\<close> apply\<close>
  "truthy JUndefined = False"
| "truthy JNull = False"
| "truthy (JBool b) = b"
| "truthy (JNum n) = (n \<noteq> Fin 0 \<and> n \<noteq> NaN)"
| "truthy (JStr s) = (s \<noteq> [])"
| "truthy (JArr xs) = True"
| "truthy (JObj kvs) = True"
| "truthy (JFunction f) = True"

fun strict_eq :: "jsval \<Rightarrow> jsval \<Rightarrow> bool" where
  \<comment> \<open>\<^verbatim>\<open>x === y\<close>. Primitives are compared by value (NaN differs from itself). Arrays and
      objects are compared by reference: the two sides of a comparison are separately
      built values (the expected one of the test file, the actual one of the provider's
      answer), which are never the same reference.\<close>
  "strict_eq JUndefined JUndefined = True"
| "strict_eq JNull JNull = True"
| "strict_eq (JBool a) (JBool b) = (a = b)"
| "strict_eq (JNum a) (JNum b) = (a \<noteq> NaN \<and> a = b)"
| "strict_eq (JStr a) (JStr b) = (a = b)"
| "strict_eq (JFunction f) (JFunction g) = (f = g)"
| "strict_eq x y = False"

fun is_array :: "jsval \<Rightarrow> bool" where
  \<comment> \<open>\<^verbatim>\<open>Array.isArray\<close>\<close>
  "is_array (JArr xs) = True"
| "is_array v = False"

fun show_nat :: "nat \<Rightarrow> string" where
  \<comment> \<open>the decimal digits of a non-negative integer, as \<^verbatim>\<open>toString\<close> and template
      literals print it\<close>
  "show_nat n = (if n < 10 then [''0123456789'' ! n]
                 else show_nat (n div 10) @ [''0123456789'' ! (n mod 10)])"

fun join_with :: "string \<Rightarrow> string list \<Rightarrow> string" where
  \<comment> \<open>\<^verbatim>\<open>Array.prototype.join\<close>\<close>
  "join_with sep [] = []"
| "join_with sep [x] = x"
| "join_with sep (x # y # ys) = x @ sep @ join_with sep (y # ys)"

record runtime =
  objectProto :: "(string \<times> jsval) list"
  arrayProto :: "(string \<times> jsval) list"
  jsonParse :: "string \<Rightarrow> jsval option"

text \<open>
  What the code takes from the JavaScript runtime is a parameter of the model: the
  properties a plain object inherits from \<^verbatim>\<open>Object.prototype\<close>, those an array inherits
  from \<^verbatim>\<open>Array.prototype\<close> and \<^verbatim>\<open>Object.prototype\<close>, and \<^verbatim>\<open>JSON.parse\<close>, which returns
  \<open>None\<close> where it throws a SyntaxError.
\<close>

fun entries_of :: "jsval \<Rightarrow> (string \<times> jsval) list" where
  \<comment> \<open>\<^verbatim>\<open>Object.entries\<close>: the own enumerable properties; those of an array are its indices\<close>
  "entries_of (JObj kvs) = kvs"
| "entries_of (JArr xs) = zip (map show_nat [0..<length xs]) xs"
| "entries_of v = []"

definition keys_of :: "jsval \<Rightarrow> string list" where
  \<comment> \<open>\<^verbatim>\<open>Object.keys\<close>\<close>
  "keys_of v = map fst (entries_of v)"

definition has_property :: "runtime \<Rightarrow> jsval \<Rightarrow> string \<Rightarrow> bool" where
  \<comment> \<open>\<^verbatim>\<open>key in v\<close>: an own property or an inherited one\<close>
  "has_property rt v k = (case v of
       JObj kvs \<Rightarrow> k \<in> set (map fst kvs) \<or> k \<in> set (map fst (objectProto rt))
     | JArr xs \<Rightarrow> k \<in> set (map show_nat [0..<length xs]) \<or> k = ''length''
         \<or> k \<in> set (map fst (arrayProto rt))
     | _ \<Rightarrow> False)"

definition get_property :: "runtime \<Rightarrow> jsval \<Rightarrow> string \<Rightarrow> jsval" where
  \<comment> \<open>\<^verbatim>\<open>v[key]\<close>: the own property, else the inherited one, else \<^verbatim>\<open>undefined\<close>\<close>
  "get_property rt v k = (case v of
       JObj kvs \<Rightarrow>
         (case map_of kvs k of Some x \<Rightarrow> x
          | None \<Rightarrow> (case map_of (objectProto rt) k of Some x \<Rightarrow> x | None \<Rightarrow> JUndefined))
     | JArr xs \<Rightarrow>
         (case map_of (zip (map show_nat [0..<length xs]) xs) k of Some x \<Rightarrow> x
          | None \<Rightarrow> if k = ''length'' then JNum (num_of_nat (length xs))
                    else (case map_of (arrayProto rt) k of Some x \<Rightarrow> x | None \<Rightarrow> JUndefined))
     | _ \<Rightarrow> JUndefined)"

section \<open>The value comparator\<close>

record ValueDifference =
  key :: string
  expected :: jsval
  actual :: jsval
  path :: "string list option"
  similarity :: "jsnum option"

subsection \<open>String similarity\<close>

text \<open>
  \<^verbatim>\<open>calculateStringSimilarity\<close> fills a table \<^verbatim>\<open>track\<close> of \<^verbatim>\<open>str2.length + 1\<close> rows and
  \<^verbatim>\<open>str1.length + 1\<close> columns, first its row 0, then its column 0, then every other cell
  row by row. The table starts filled with \<^verbatim>\<open>null\<close>, which is 0 in arithmetic.
\<close>

definition initTrack :: "string \<Rightarrow> string \<Rightarrow> nat list list" where
  "initTrack str1 str2 = replicate (length str2 + 1) (replicate (length str1 + 1) 0)"

definition setCell :: "nat list list \<Rightarrow> nat \<Rightarrow> nat \<Rightarrow> nat \<Rightarrow> nat list list" where
  \<comment> \<open>\<^verbatim>\<open>track[j][i] = v\<close>\<close>
  "setCell track j i v = track[j := (track ! j)[i := v]]"

definition fillFirstRow :: "string \<Rightarrow> nat list list \<Rightarrow> nat list list" where
  \<comment> \<open>\<^verbatim>\<open>for (let i = 0; i <= str1.length; i++) track[0][i] = i\<close>\<close>
  "fillFirstRow str1 track = fold (\<lambda>i t. setCell t 0 i i) [0..<length str1 + 1] track"

definition fillFirstColumn :: "string \<Rightarrow> nat list list \<Rightarrow> nat list list" where
  \<comment> \<open>\<^verbatim>\<open>for (let j = 0; j <= str2.length; j++) track[j][0] = j\<close>\<close>
  "fillFirstColumn str2 track = fold (\<lambda>j t. setCell t j 0 j) [0..<length str2 + 1] track"

definition fillCell :: "string \<Rightarrow> string \<Rightarrow> nat \<Rightarrow> nat \<Rightarrow> nat list list \<Rightarrow> nat list list" where
  \<comment> \<open>the body of the inner loop\<close>
  "fillCell str1 str2 j i track =
     (let indicator = (if str1 ! (i - 1) = str2 ! (j - 1) then 0 else 1)
      in setCell track j i
           (min (min (track ! j ! (i - 1) + 1) (track ! (j - 1) ! i + 1))
                (track ! (j - 1) ! (i - 1) + indicator)))"

definition fillRow :: "string \<Rightarrow> string \<Rightarrow> nat \<Rightarrow> nat list list \<Rightarrow> nat list list" where
  \<comment> \<open>\<^verbatim>\<open>for (let i = 1; i <= str1.length; i++)\<close>\<close>
  "fillRow str1 str2 j track = fold (fillCell str1 str2 j) [1..<length str1 + 1] track"

definition fillTable :: "string \<Rightarrow> string \<Rightarrow> nat list list \<Rightarrow> nat list list" where
  \<comment> \<open>\<^verbatim>\<open>for (let j = 1; j <= str2.length; j++)\<close>\<close>
  "fillTable str1 str2 track = fold (fillRow str1 str2) [1..<length str2 + 1] track"

definition editDistance :: "string \<Rightarrow> string \<Rightarrow> nat" where
  \<comment> \<open>\<^verbatim>\<open>track[str2.length][str1.length]\<close> after the three loops\<close>
  "editDistance str1 str2 =
     fillTable str1 str2 (fillFirstColumn str2 (fillFirstRow str1 (initTrack str1 str2)))
       ! length str2 ! length str1"

definition calculateStringSimilarity :: "string \<Rightarrow> string \<Rightarrow> jsnum" where
  "calculateStringSimilarity str1 str2 =
     (let distance = editDistance str1 str2;
          maxLength = max (length str1) (length str2)
      in jsub (Fin 1) (jdiv (num_of_nat distance) (num_of_nat maxLength)))"

subsection \<open>Numeric tolerance\<close>

definition areNumbersClose :: "jsnum \<Rightarrow> jsnum \<Rightarrow> bool" where
  "areNumbersClose n1 n2 =
     (let relTolerance = rnd (1 / 10);
          absTolerance = rnd (1 / 10)
      in jle (jabs (jsub n1 n2))
             (jmax absTolerance (jmul relTolerance (jmax (jabs n1) (jabs n2)))))"

subsection \<open>Deep comparison\<close>

definition pathKey :: "string list \<Rightarrow> string" where
  \<comment> \<open>\<^verbatim>\<open>path[path.length - 1] || 'root'\<close>: the last segment unless it is missing or empty\<close>
  "pathKey pth = (if pth = [] \<or> last pth = [] then ''root'' else last pth)"

definition pushDifference ::
  "ValueDifference list \<Rightarrow> string list \<Rightarrow> jsval \<Rightarrow> jsval \<Rightarrow> jsnum \<Rightarrow> ValueDifference list" where
  \<comment> \<open>\<^verbatim>\<open>differences.push({ key, expected, actual, path: [...path], similarity })\<close>\<close>
  "pushDifference acc pth expd actl sim =
     acc @ [\<lparr>key = pathKey pth, expected = expd, actual = actl,
               path = Some pth, similarity = Some sim\<rparr>]"

definition numberSimilarity :: "jsnum \<Rightarrow> jsnum \<Rightarrow> jsnum" where
  \<comment> \<open>\<^verbatim>\<open>1 - Math.min(Math.abs(expected - actual) /
      Math.max(Math.abs(expected), Math.abs(actual)), 1)\<close>\<close>
  "numberSimilarity n1 n2 =
     jsub (Fin 1) (jmin (jdiv (jabs (jsub n1 n2)) (jmax (jabs n1) (jabs n2))) (Fin 1))"

lemma size_list_zip_snd:
  "length ks = length xs \<Longrightarrow> size_list (\<lambda>p. size (snd p)) (zip ks xs) = size_list size xs"
  by (induction ks xs rule: list_induct2) auto

lemma size_list_snd_le:
  "size_list (\<lambda>p. size (snd p)) (kvs :: (string \<times> jsval) list)
     \<le> size_list (size_prod (\<lambda>_. 0) size) kvs"
  by (induction kvs) auto

lemma size_entries_of:
  "typeof e = TObject \<Longrightarrow> truthy e \<Longrightarrow> size_list (\<lambda>p. size (snd p)) (entries_of e) < size e"
  using size_list_snd_le by (cases e) (auto simp: size_list_zip_snd less_Suc_eq_le)

lemma size_items: "is_array e \<Longrightarrow> size_list size (items e) < size e"
  by (cases e) auto

text \<open>
  \<^verbatim>\<open>deepCompare\<close> returns its verdict and appends to the list of differences it is given;
  the model returns the pair of both. \<^verbatim>\<open>every\<close> stops at the first element whose
  comparison fails, so later elements are not compared.
\<close>

function deepCompare ::
    "runtime \<Rightarrow> jsval \<Rightarrow> jsval \<Rightarrow> string list \<Rightarrow> ValueDifference list
      \<Rightarrow> bool \<times> ValueDifference list"
  and everyItem ::
    "runtime \<Rightarrow> jsval list \<Rightarrow> jsval \<Rightarrow> nat \<Rightarrow> string list \<Rightarrow> ValueDifference list
      \<Rightarrow> bool \<times> ValueDifference list"
  and everyKey ::
    "runtime \<Rightarrow> (string \<times> jsval) list \<Rightarrow> jsval \<Rightarrow> string list \<Rightarrow> ValueDifference list
      \<Rightarrow> bool \<times> ValueDifference list"
where
  "deepCompare rt expd actl pth acc =
     (if strict_eq expd actl then (True, acc)
      else if \<not> truthy expd \<or> \<not> truthy actl then
        (False, pushDifference acc pth expd actl (Fin 0))
      else if typeof expd \<noteq> typeof actl then
        (False, pushDifference acc pth expd actl (Fin 0))
      else if typeof expd = TBoolean then
        (let isMatch = strict_eq expd actl
         in (isMatch, if \<not> isMatch then pushDifference acc pth expd actl (Fin 0) else acc))
      else if typeof expd = TNumber \<and> typeof actl = TNumber then
        (let isClose = areNumbersClose (the_num expd) (the_num actl);
             sim = numberSimilarity (the_num expd) (the_num actl)
         in (jlt (Fin 0) sim,
             if \<not> isClose then pushDifference acc pth expd actl sim else acc))
      else if typeof expd = TString \<and> typeof actl = TString then
        (let sim = calculateStringSimilarity (the_str expd) (the_str actl)
         in (jlt (Fin 0) sim,
             if jlt sim (Fin 1) then pushDifference acc pth expd actl sim else acc))
      else if is_array expd \<and> is_array actl then
        (if length (items expd) \<noteq> length (items actl) then
           (False, pushDifference acc pth
              (JStr (''Array('' @ show_nat (length (items expd)) @ '')''))
              (JStr (''Array('' @ show_nat (length (items actl)) @ '')''))
              (jdiv (num_of_nat (min (length (items expd)) (length (items actl))))
                    (num_of_nat (max (length (items expd)) (length (items actl))))))
         else everyItem rt (items expd) actl 0 pth acc)
      else if typeof expd = TObject then
        (let expectedKeys = keys_of expd;
             actualKeys = keys_of actl;
             missingKeys = filter (\<lambda>k. \<not> has_property rt actl k) expectedKeys;
             extraKeys = filter (\<lambda>k. \<not> has_property rt expd k) actualKeys
         in if 0 < length missingKeys \<or> 0 < length extraKeys then
              (False, pushDifference acc pth
                 (JStr (''Object('' @ join_with '', '' expectedKeys @ '')''))
                 (JStr (''Object('' @ join_with '', '' actualKeys @ '')''))
                 (jdiv (num_of_nat (length expectedKeys - length missingKeys))
                       (num_of_nat (max (length expectedKeys) (length actualKeys)))))
            else everyKey rt (entries_of expd) actl pth acc)
      else
        (let isMatch = strict_eq expd actl
         in (isMatch, if \<not> isMatch then pushDifference acc pth expd actl (Fin 0) else acc)))"
| "everyItem rt [] actl index pth acc = (True, acc)"
| "everyItem rt (item # rest) actl index pth acc =
     (case deepCompare rt item (get_property rt actl (show_nat index))
             (pth @ [show_nat index]) acc of
        (ok, acc') \<Rightarrow>
          if ok then everyItem rt rest actl (Suc index) pth acc' else (False, acc'))"
| "everyKey rt [] actl pth acc = (True, acc)"
| "everyKey rt ((k, v) # rest) actl pth acc =
     (case deepCompare rt v (get_property rt actl k) (pth @ [k]) acc of
        (ok, acc') \<Rightarrow>
          if ok then everyKey rt rest actl pth acc' else (False, acc'))"
  by pat_completeness auto

termination deepCompare
  apply (relation "measure (\<lambda>x. case x of
            Inl (rt, e, a, p, acc) \<Rightarrow> size e
          | Inr (Inl (rt, xs, a, i, p, acc)) \<Rightarrow> size_list size xs
          | Inr (Inr (rt, kvs, a, p, acc)) \<Rightarrow> size_list (\<lambda>p. size (snd p)) kvs)")
  apply (auto simp: size_items size_entries_of)
  done

section \<open>The key flattener\<close>

function getAllKeys :: "jsval \<Rightarrow> string \<Rightarrow> string list"
  and flatMapEntries :: "(string \<times> jsval) list \<Rightarrow> string \<Rightarrow> string list"
where
  "getAllKeys obj prefix =
     (if \<not> truthy obj \<or> typeof obj \<noteq> TObject then []
      else flatMapEntries (entries_of obj) prefix)"
| "flatMapEntries [] prefix = []"
| "flatMapEntries ((k, v) # rest) prefix =
     (let currentKey = (if prefix \<noteq> [] then prefix @ ''.'' @ k else k)
      in (if truthy v \<and> typeof v = TObject \<and> \<not> is_array v
          then currentKey # getAllKeys v currentKey
          else [currentKey]))
     @ flatMapEntries rest prefix"
  by pat_completeness auto

termination getAllKeys
  apply (relation "measure (\<lambda>x. case x of
            Inl (obj, prefix) \<Rightarrow> size obj
          | Inr (kvs, prefix) \<Rightarrow> size_list (\<lambda>p. size (snd p)) kvs)")
  apply (auto simp: size_entries_of)
  done

section \<open>The case evaluator\<close>

datatype error = SyntaxError

record ComparisonResult =
  isMatch :: bool
  cmpDifferences :: "ValueDifference list option"
  cmpMatchedFields :: "string list option"
  cmpMissingFields :: "string list option"
  cmpExtraFields :: "string list option"

record TestResult =
  isFinished :: bool
  isSuccess :: bool
  input :: string
  expectedResponse :: jsval
  actualResponse :: jsval
  timeElapsed :: jsnum
  cost :: jsnum
  differences :: "ValueDifference list option"
  matchedFields :: "string list option"
  missingFields :: "string list option"
  extraFields :: "string list option"

definition parseIfString :: "runtime \<Rightarrow> jsval \<Rightarrow> error + jsval" where
  \<comment> \<open>\<^verbatim>\<open>typeof v === 'string' ? JSON.parse(v) : v\<close>\<close>
  "parseIfString rt v =
     (if typeof v = TString then
        (case jsonParse rt (the_str v) of None \<Rightarrow> Inl SyntaxError | Some x \<Rightarrow> Inr x)
      else Inr v)"

definition newSet :: "string list \<Rightarrow> string list" where
  \<comment> \<open>the elements of \<^verbatim>\<open>new Set(xs)\<close> in their order: first occurrences\<close>
  "newSet xs = rev (remdups (rev xs))"

definition nonEmpty :: "'a list \<Rightarrow> 'a list option" where
  \<comment> \<open>\<^verbatim>\<open>xs.length > 0 ? xs : undefined\<close>\<close>
  "nonEmpty xs = (if 0 < length xs then Some xs else None)"

definition compareResponsesTry :: "runtime \<Rightarrow> jsval \<Rightarrow> jsval \<Rightarrow> error + ComparisonResult" where
  \<comment> \<open>the \<^verbatim>\<open>try\<close> block of \<^verbatim>\<open>compareResponses\<close>\<close>
  "compareResponsesTry rt expd actl =
     (case parseIfString rt expd of
        Inl err \<Rightarrow> Inl err
      | Inr expectedObj \<Rightarrow>
        (case parseIfString rt actl of
           Inl err \<Rightarrow> Inl err
         | Inr actualObj \<Rightarrow>
           (case deepCompare rt expectedObj actualObj [] [] of
              (matches, diffList) \<Rightarrow>
                (let expectedKeys = newSet (getAllKeys expectedObj []);
                     actualKeys = newSet (getAllKeys actualObj []);
                     matched = filter (\<lambda>k. k \<in> set actualKeys) expectedKeys;
                     missing = filter (\<lambda>k. k \<notin> set actualKeys) expectedKeys;
                     extra = filter (\<lambda>k. k \<notin> set expectedKeys) actualKeys
                 in Inr \<lparr>isMatch = matches,
                         cmpDifferences = nonEmpty diffList,
                         cmpMatchedFields = Some matched,
                         cmpMissingFields = nonEmpty missing,
                         cmpExtraFields = nonEmpty extra\<rparr>))))"

definition compareResponses :: "runtime \<Rightarrow> jsval \<Rightarrow> jsval \<Rightarrow> ComparisonResult" where
  \<comment> \<open>the \<^verbatim>\<open>catch\<close> clause turns every error of the block into a result\<close>
  "compareResponses rt expd actl =
     (case compareResponsesTry rt expd actl of
        Inr result \<Rightarrow> result
      | Inl err \<Rightarrow>
          \<lparr>isMatch = False,
           cmpDifferences = Some [\<lparr>key = ''parse_error'', expected = expd, actual = actl,
                                   path = Some [''root''], similarity = None\<rparr>],
           cmpMatchedFields = None,
           cmpMissingFields = None,
           cmpExtraFields = None\<rparr>)"

definition evaluateTestCase ::
  "runtime \<Rightarrow> jsval \<Rightarrow> jsval \<Rightarrow> jsnum \<Rightarrow> jsnum \<Rightarrow> string \<Rightarrow> TestResult" where
  "evaluateTestCase rt expd actl elapsed spent inp =
     (let comparison = compareResponses rt expd actl
      in \<lparr>isFinished = True,
          isSuccess = isMatch comparison,
          input = inp,
          expectedResponse = expd,
          actualResponse = actl,
          timeElapsed = elapsed,
          cost = spent,
          differences = cmpDifferences comparison,
          matchedFields = cmpMatchedFields comparison,
          missingFields = cmpMissingFields comparison,
          extraFields = cmpExtraFields comparison\<rparr>)"

section \<open>The metrics aggregator\<close>

text \<open>
  Of \<^verbatim>\<open>MetricsResult\<close> the model keeps the counts, the time and cost figures, the accuracy
  figures and the per-field success rates. \<^verbatim>\<open>medianTime\<close>, \<^verbatim>\<open>mostFailedFields\<close> and
  \<^verbatim>\<open>errorDistribution\<close> are computed independently of these and are left out.
\<close>

record MetricsResult =
  totalTests :: nat
  successfulTests :: nat
  failedTests :: nat
  averageTime :: jsnum
  minTime :: jsnum
  maxTime :: jsnum
  averageCost :: jsnum
  totalCost :: jsnum
  costPerSuccess :: jsnum
  successRate :: jsnum
  precision :: jsnum
  recall :: jsnum
  f1Score :: jsnum
  fieldSuccessRates :: "string \<Rightarrow> jsnum option"

record FieldCount =
  success :: nat
  total :: nat

fun mapSet :: "'k \<Rightarrow> 'v \<Rightarrow> ('k \<times> 'v) list \<Rightarrow> ('k \<times> 'v) list" where
  \<comment> \<open>\<^verbatim>\<open>Map.prototype.set\<close>: a known key keeps its place, a new one goes last\<close>
  "mapSet k v [] = [(k, v)]"
| "mapSet k v ((k', v') # rest) = (if k' = k then (k, v) # rest else (k', v') # mapSet k v rest)"

definition countField :: "bool \<Rightarrow> string \<Rightarrow> (string \<times> FieldCount) list \<Rightarrow> (string \<times> FieldCount) list" where
  \<comment> \<open>the body of \<^verbatim>\<open>result.matchedFields.forEach\<close>\<close>
  "countField succeeded field fieldCounts =
     (let counts = (case map_of fieldCounts field of
                      Some c \<Rightarrow> c | None \<Rightarrow> \<lparr>success = 0, total = 0\<rparr>);
          counts' = \<lparr>success = success counts + (if succeeded then 1 else 0),
                     total = total counts + 1\<rparr>
      in mapSet field counts' fieldCounts)"

definition countFields :: "TestResult list \<Rightarrow> (string \<times> FieldCount) list" where
  \<comment> \<open>\<^verbatim>\<open>results.forEach\<close> over an empty \<^verbatim>\<open>fieldCounts\<close>\<close>
  "countFields results =
     fold (\<lambda>result fieldCounts.
             case matchedFields result of
               None \<Rightarrow> fieldCounts
             | Some names \<Rightarrow> fold (countField (isSuccess result)) names fieldCounts)
          results []"

definition sumOf :: "jsnum list \<Rightarrow> jsnum" where
  \<comment> \<open>\<^verbatim>\<open>xs.reduce((a, b) => a + b, 0)\<close>\<close>
  "sumOf xs = foldl jadd (Fin 0) xs"

definition calculateMetrics :: "TestResult list \<Rightarrow> MetricsResult" where
  "calculateMetrics results =
     (let numTests = length results;
          numSuccessful = length (filter isSuccess results);
          numFailed = numTests - numSuccessful;
          times = map timeElapsed (filter isFinished results);
          costs = map cost (filter isFinished results);
          fieldCounts = countFields results;
          rate = jdiv (num_of_nat numSuccessful) (num_of_nat numTests)
      in \<lparr>totalTests = numTests,
          successfulTests = numSuccessful,
          failedTests = numFailed,
          averageTime = jdiv (sumOf times) (num_of_nat numTests),
          minTime = foldl jmin PInf times,
          maxTime = foldl jmax NInf times,
          averageCost = jdiv (sumOf costs) (num_of_nat numTests),
          totalCost = sumOf costs,
          costPerSuccess =
            (if numSuccessful \<noteq> 0 then jdiv (sumOf costs) (num_of_nat numSuccessful) else Fin 0),
          successRate = rate,
          precision = rate,
          recall = rate,
          f1Score =
            (if numSuccessful \<noteq> 0 then jdiv (jmul (jmul (Fin 2) rate) rate) (jadd rate rate)
             else Fin 0),
          fieldSuccessRates =
            map_of (map (\<lambda>(field, counts).
                           (field, jdiv (num_of_nat (success counts)) (num_of_nat (total counts))))
                        fieldCounts)\<rparr>)"

section \<open>Notions the properties are stated with\<close>

text \<open>
  The Levenshtein distance is taken in its textbook form, not from the source: \<open>lev a b i j\<close>
  is the distance between the first \<open>i\<close> characters of \<open>a\<close> and the first \<open>j\<close> characters of
  \<open>b\<close>, by the recurrence over deleting, inserting and substituting a last character.
\<close>

fun lev :: "string \<Rightarrow> string \<Rightarrow> nat \<Rightarrow> nat \<Rightarrow> nat" where
  "lev a b 0 j = j"
| "lev a b (Suc i) 0 = Suc i"
| "lev a b (Suc i) (Suc j) =
     min (min (lev a b i (Suc j) + 1) (lev a b (Suc i) j + 1))
         (lev a b i j + (if a ! i = b ! j then 0 else 1))"

definition levenshtein :: "string \<Rightarrow> string \<Rightarrow> nat" where
  "levenshtein a b = lev a b (length a) (length b)"

text \<open>A recorded similarity is in range when it is a number from 0 to 1.\<close>

definition similarityInRange :: "ValueDifference \<Rightarrow> bool" where
  "similarityInRange d = (case similarity d of None \<Rightarrow> True | Some s \<Rightarrow> in_unit s)"

text \<open>
  The keys of the expected object that the actual one lacks, and the keys of the actual
  object that the expected one lacks, as the object branch of \<^verbatim>\<open>deepCompare\<close> computes them.
\<close>

definition missingKeys :: "runtime \<Rightarrow> jsval \<Rightarrow> jsval \<Rightarrow> string list" where
  "missingKeys rt e a = filter (\<lambda>k. \<not> has_property rt a k) (keys_of e)"

definition extraKeys :: "runtime \<Rightarrow> jsval \<Rightarrow> jsval \<Rightarrow> string list" where
  "extraKeys rt e a = filter (\<lambda>k. \<not> has_property rt e k) (keys_of a)"

text \<open>
  The cases of a batch whose \<^verbatim>\<open>matchedFields\<close> contain a field, and the property of a case
  that its \<^verbatim>\<open>matchedFields\<close> name no field twice, as those \<^verbatim>\<open>evaluateTestCase\<close> builds do.
\<close>

definition fieldCases :: "string \<Rightarrow> TestResult list \<Rightarrow> TestResult list" where
  "fieldCases f results =
     filter (\<lambda>r. case matchedFields r of None \<Rightarrow> False | Some names \<Rightarrow> f \<in> set names) results"

definition distinctFields :: "TestResult \<Rightarrow> bool" where
  "distinctFields r = (case matchedFields r of None \<Rightarrow> True | Some names \<Rightarrow> distinct names)"

text \<open>The difference that the \<^verbatim>\<open>catch\<close> clause of \<^verbatim>\<open>compareResponses\<close> reports.\<close>

definition parseErrorDifference :: "jsval \<Rightarrow> jsval \<Rightarrow> ValueDifference" where
  "parseErrorDifference expd actl =
     \<lparr>key = ''parse_error'', expected = expd, actual = actl,
      path = Some [''root''], similarity = None\<rparr>"

text \<open>
  Invariants of the three loops of \<^verbatim>\<open>calculateStringSimilarity\<close>: the table has its
  dimensions, and when the loops are about to fill row \<open>j\<close> from column \<open>i\<close> on, row 0, column 0,
  the rows above \<open>j\<close> and the cells of row \<open>j\<close> left of column \<open>i\<close> hold their distances.
\<close>

definition table_ok :: "nat \<Rightarrow> nat \<Rightarrow> nat list list \<Rightarrow> bool" where
  "table_ok n1 n2 t \<longleftrightarrow> length t = n2 + 1 \<and> (\<forall>r \<le> n2. length (t ! r) = n1 + 1)"

definition filled :: "string \<Rightarrow> string \<Rightarrow> nat list list \<Rightarrow> nat \<Rightarrow> nat \<Rightarrow> bool" where
  "filled str1 str2 t j i \<longleftrightarrow>
     table_ok (length str1) (length str2) t \<and>
     (\<forall>r c. r \<le> length str2 \<longrightarrow> c \<le> length str1 \<longrightarrow>
        (r = 0 \<or> c = 0 \<or> r < j \<or> (r = j \<and> c < i)) \<longrightarrow> t ! r ! c = lev str1 str2 c r)"

text \<open>
  The counts \<^verbatim>\<open>fieldCounts.get(field) || { success: 0, total: 0 }\<close> of a field, and the
  body of \<^verbatim>\<open>results.forEach\<close>.
\<close>

definition countsOf :: "(string \<times> FieldCount) list \<Rightarrow> string \<Rightarrow> FieldCount" where
  "countsOf fieldCounts f =
     (case map_of fieldCounts f of Some c \<Rightarrow> c | None \<Rightarrow> \<lparr>success = 0, total = 0\<rparr>)"

definition countCase :: "TestResult \<Rightarrow> (string \<times> FieldCount) list \<Rightarrow> (string \<times> FieldCount) list" where
  "countCase result fieldCounts =
     (case matchedFields result of
        None \<Rightarrow> fieldCounts
      | Some names \<Rightarrow> fold (countField (isSuccess result)) names fieldCounts)"

section \<open>A runtime for the examples\<close>

text \<open>
  The examples run in a runtime whose plain objects inherit the function members of
  \<^verbatim>\<open>Object.prototype\<close> and whose arrays inherit the methods of \<^verbatim>\<open>Array.prototype\<close> before
  them (the accessor \<^verbatim>\<open>__proto__\<close> is left out). Its \<^verbatim>\<open>JSON.parse\<close> is given on the one
  well-formed text the examples parse.
\<close>

definition objectPrototype :: "(string \<times> jsval) list" where
  "objectPrototype =
     map (\<lambda>name. (name, JFunction name))
       [''constructor'', ''hasOwnProperty'', ''isPrototypeOf'', ''propertyIsEnumerable'',
        ''toLocaleString'', ''toString'', ''valueOf'', ''__defineGetter__'',
        ''__defineSetter__'', ''__lookupGetter__'', ''__lookupSetter__'']"

definition arrayPrototype :: "(string \<times> jsval) list" where
  "arrayPrototype =
     map (\<lambda>name. (name, JFunction (''Array.'' @ name)))
       [''constructor'', ''at'', ''concat'', ''copyWithin'', ''entries'', ''every'', ''fill'',
        ''filter'', ''find'', ''findIndex'', ''findLast'', ''findLastIndex'', ''flat'',
        ''flatMap'', ''forEach'', ''includes'', ''indexOf'', ''join'', ''keys'',
        ''lastIndexOf'', ''map'', ''pop'', ''push'', ''reduce'', ''reduceRight'', ''reverse'',
        ''shift'', ''slice'', ''some'', ''sort'', ''splice'', ''toLocaleString'', ''toString'',
        ''unshift'', ''values'']
     @ objectPrototype"

definition exampleParse :: "string \<Rightarrow> jsval option" where
  \<open>exampleParse s =
     (if s = ''{"a":1}'' then Some (JObj [(''a'', JNum (Fin 1))]) else None)\<close>

definition exampleRuntime :: runtime where
  "exampleRuntime =
     \<lparr>objectProto = objectPrototype,
      arrayProto = arrayPrototype,
      jsonParse = exampleParse\<rparr>"

text \<open>
  Two results of a batch: a finished case, and the record the test command builds for a
  case whose provider call threw (\<^verbatim>\<open>src/commands/test.ts\<close>), with time and cost 0.
\<close>

definition exampleFinished :: TestResult where
  "exampleFinished =
     \<lparr>isFinished = True, isSuccess = True, input = ''first'',
      expectedResponse = JObj [(''a'', JNum (Fin 1))],
      actualResponse = JObj [(''a'', JNum (Fin 1))],
      timeElapsed = Fin 100, cost = Fin 1,
      differences = None, matchedFields = Some [''a''],
      missingFields = None, extraFields = None\<rparr>"

definition exampleUnfinished :: TestResult where
  "exampleUnfinished =
     \<lparr>isFinished = False, isSuccess = False, input = ''second'',
      expectedResponse = JObj [(''a'', JNum (Fin 1))],
      actualResponse = JNull,
      timeElapsed = Fin 0, cost = Fin 0,
      differences = None, matchedFields = None,
      missingFields = None, extraFields = None\<rparr>"

text \<open>Two finished cases whose matched fields both hold \<^verbatim>\<open>amount\<close>.\<close>

definition exampleAmountPassed :: TestResult where
  "exampleAmountPassed =
     \<lparr>isFinished = True, isSuccess = True, input = ''paid 12 euros'',
      expectedResponse = JObj [(''amount'', JNum (Fin 12))],
      actualResponse = JObj [(''amount'', JNum (Fin 12))],
      timeElapsed = Fin 100, cost = Fin 1,
      differences = None, matchedFields = Some [''amount''],
      missingFields = None, extraFields = None\<rparr>"

definition exampleAmountFailed :: TestResult where
  "exampleAmountFailed =
     \<lparr>isFinished = True, isSuccess = False, input = ''paid 12 euros'',
      expectedResponse = JObj [(''amount'', JNum (Fin 12))],
      actualResponse = JObj [(''amount'', JStr ''twelve'')],
      timeElapsed = Fin 100, cost = Fin 1,
      differences =
        Some [\<lparr>key = ''amount'', expected = JNum (Fin 12), actual = JStr ''twelve'',
                path = Some [''amount''], similarity = Some (Fin 0)\<rparr>],
      matchedFields = Some [''amount''],
      missingFields = None, extraFields = None\<rparr>"

declare deepCompare.simps [simp del]

declare getAllKeys.simps [simp del]

section \<open>Properties of rounding\<close>

lemma ilog2_bounds:
  assumes "0 < x"
  shows "2 powi (ilog2 x) \<le> x" and "x < 2 powi (ilog2 x + 1)"
proof -
  obtain p q where pq: "quotient_of x = (p, q)" by (cases "quotient_of x")
  have q: "0 < q" using pq quotient_of_denom_pos by blast
  have x: "x = of_int p / of_int q" using pq quotient_of_div by blast
  have p: "0 < p" using assms q x by (simp add: zero_less_divide_iff)
  define bp where "bp = bitlen p"
  define bq where "bq = bitlen q"
  have bp1: "1 \<le> bp" using p by (auto simp: bp_def bitlen_alt_def)
  have bq1: "1 \<le> bq" using q by (auto simp: bq_def bitlen_alt_def)
  have P: "(2::int) ^ nat (bp - 1) \<le> p" "p < 2 ^ nat bp" using bitlen_bounds[OF p] by (simp_all add: bp_def)
  have Q: "(2::int) ^ nat (bq - 1) \<le> q" "q < 2 ^ nat bq" using bitlen_bounds[OF q] by (simp_all add: bq_def)
  have pw: "\<And>k. 0 \<le> k \<Longrightarrow> (2::rat) powi k = of_int (2 ^ nat k)"
    by (simp add: power_int_def)
  have Pr: "(2::rat) powi (bp - 1) \<le> of_int p" "of_int p < (2::rat) powi bp"
  proof -
    show "(2::rat) powi (bp - 1) \<le> of_int p"
      using P(1) bp1 by (simp only: pw of_int_le_iff)
    show "of_int p < (2::rat) powi bp"
      using P(2) bp1 by (simp only: pw of_int_less_iff)
  qed
  have Qr: "(2::rat) powi (bq - 1) \<le> of_int q" "of_int q < (2::rat) powi bq"
  proof -
    show "(2::rat) powi (bq - 1) \<le> of_int q"
      using Q(1) bq1 by (simp only: pw of_int_le_iff)
    show "of_int q < (2::rat) powi bq"
      using Q(2) bq1 by (simp only: pw of_int_less_iff)
  qed
  have qpos: "(0::rat) < of_int q" using q by simp
  have up: "x < 2 powi (bp - bq + 1)"
  proof -
    have "of_int p < (2::rat) powi bp" by (rule Pr)
    also have "\<dots> = 2 powi (bp - bq + 1) * 2 powi (bq - 1)"
      by (simp flip: power_int_add)
    also have "\<dots> \<le> 2 powi (bp - bq + 1) * of_int q"
      using Qr(1) by (simp add: mult_left_mono)
    finally show ?thesis using qpos by (simp add: x pos_divide_less_eq)
  qed
  have lo: "2 powi (bp - bq - 1) \<le> x"
  proof -
    have "2 powi (bp - bq - 1) * of_int q \<le> 2 powi (bp - bq - 1) * (2::rat) powi bq"
      using Qr(2) by (simp add: mult_left_mono)
    also have "\<dots> = 2 powi (bp - 1)" by (simp flip: power_int_add)
    also have "\<dots> \<le> of_int p" by (rule Pr)
    finally show ?thesis using qpos by (simp add: x pos_le_divide_eq)
  qed
  show "2 powi (ilog2 x) \<le> x"
    using lo by (simp add: ilog2_def pq Let_def bp_def bq_def)
  show "x < 2 powi (ilog2 x + 1)"
    using up by (auto simp add: ilog2_def pq Let_def bp_def bq_def not_le)
qed

lemma round_even_lower: "y - 1 / 2 \<le> of_int (round_even y)"
  unfolding round_even_def Let_def by (auto simp: not_less) linarith+

lemma round_even_upper: "of_int (round_even y) \<le> y + 1 / 2"
  unfolding round_even_def Let_def by (auto simp: not_less) linarith+

lemma round_even_le_int: "y \<le> of_int n \<Longrightarrow> round_even y \<le> n"
proof -
  assume h: "y \<le> of_int n"
  have f: "\<lfloor>y\<rfloor> \<le> n" using h by (simp add: floor_le_iff)
  show ?thesis
  proof (cases "\<lfloor>y\<rfloor> = n")
    case True
    then have "y = of_int n" using h by (metis of_int_floor_le order_antisym)
    then show ?thesis by (simp add: round_even_def)
  next
    case False
    then have "\<lfloor>y\<rfloor> + 1 \<le> n" using f by simp
    then show ?thesis unfolding round_even_def Let_def by auto
  qed
qed

lemma round_even_nonneg: "0 \<le> y \<Longrightarrow> 0 \<le> round_even y"
  unfolding round_even_def Let_def by (auto simp: not_less) 

lemma rnd_zero: "rnd 0 = Fin 0"
  by (simp add: rnd_def)

lemma rnd_nonneg_cases: 
  assumes "0 \<le> x"
  shows "rnd x = PInf \<or> (\<exists>y. rnd x = Fin y \<and> 0 \<le> y)"
proof (cases "x = 0")
  case True then show ?thesis by (simp add: rnd_def)
next
  case False
  then have x: "0 < x" using assms by simp
  define u where "u = (2::rat) powi (max (ilog2 \<bar>x\<bar>) (- 1022) - 52)"
  have u: "0 < u" by (simp add: u_def)
  have "0 \<le> round_even (\<bar>x\<bar> / u)" using u by (intro round_even_nonneg) simp
  then have "0 \<le> (of_int (round_even (\<bar>x\<bar> / u)) :: rat) * u" using u by simp
  then show ?thesis using x by (auto simp: rnd_def Let_def u_def)
qed

lemma rnd_unit:
  assumes "0 \<le> x" "x \<le> 1"
  shows "\<exists>y. rnd x = Fin y \<and> 0 \<le> y \<and> y \<le> 1"
proof (cases "x = 0")
  case True then show ?thesis by (simp add: rnd_def)
next
  case False
  then have x: "0 < x" using assms by simp
  define e where "e = max (ilog2 \<bar>x\<bar>) (- 1022)"
  define u where "u = (2::rat) powi (e - 52)"
  define v where "v = (of_int (round_even (\<bar>x\<bar> / u)) :: rat) * u"
  have u: "0 < u" by (simp add: u_def)
  have "(2::rat) powi (ilog2 x) \<le> 1" using ilog2_bounds(1)[OF x] assms(2) by simp
  then have "ilog2 x \<le> 0"
    by (metis not_le one_less_power_int one_less_numeral_iff semiring_norm(76) not_less)
  then have e0: "e \<le> 0" using x by (simp add: e_def)
  define N :: int where "N = 2 ^ nat (52 - e)"
  have Nu: "of_int N * u = 1"
    using e0 by (simp add: N_def u_def power_int_def field_simps flip: power_add)
  have "\<bar>x\<bar> / u \<le> of_int N"
    using Nu u assms x by (simp add: pos_divide_le_eq)
  then have "round_even (\<bar>x\<bar> / u) \<le> N" by (rule round_even_le_int)
  then have "v \<le> of_int N * u" unfolding v_def using u by (simp add: mult_right_mono)
  then have v1: "v \<le> 1" using Nu by simp
  have "0 \<le> round_even (\<bar>x\<bar> / u)" using u by (intro round_even_nonneg) simp
  then have v0: "0 \<le> v" using u by (simp add: v_def)
  have "\<not> (2::rat) powi 1024 \<le> v" using v1 by (simp add: power_int_def)
  then have "rnd x = Fin v" using x by (simp add: rnd_def Let_def v_def u_def e_def)
  then show ?thesis using v0 v1 by simp
qed

lemma ilog2_unique:
  assumes "0 < x" "2 powi e \<le> x" "x < 2 powi (e + 1)"
  shows "ilog2 x = e"
proof -
  have "(2::rat) powi (ilog2 x) < 2 powi (e + 1)"
    using ilog2_bounds(1)[OF assms(1)] assms(3) by simp
  then have a: "ilog2 x < e + 1"
    using power_int_increasing[of "e + 1" "ilog2 x" "2::rat"] by (cases "ilog2 x < e + 1") auto
  have "(2::rat) powi e < 2 powi (ilog2 x + 1)"
    using ilog2_bounds(2)[OF assms(1)] assms(2) by simp
  then have b: "e < ilog2 x + 1"
    using power_int_increasing[of "ilog2 x + 1" e "2::rat"] by (cases "e < ilog2 x + 1") auto
  show ?thesis using a b by simp
qed

lemma round_even_near:
  assumes "\<bar>y - of_int m\<bar> < 1 / 2"
  shows "round_even y = m"
proof -
  have "\<bar>(of_int (round_even y) :: rat) - of_int m\<bar> < 1"
    using round_even_lower[of y] round_even_upper[of y] assms by linarith
  then have "\<bar>round_even y - m\<bar> < 1"
    by (metis of_int_diff of_int_abs of_int_less_1_iff)
  then show ?thesis by simp
qed

lemma round_even_tie:
  assumes "\<bar>y - of_int m\<bar> = 1 / 2" "even m"
  shows "round_even y = m"
proof -
  consider "y = of_int m + 1 / 2" | "y = of_int m - 1 / 2" using assms(1) by (auto simp: abs_if split: if_splits) 
  then show ?thesis
  proof cases
    case 1
    then have "\<lfloor>y\<rfloor> = m" by (simp add: floor_unique)
    then show ?thesis using 1 assms(2) by (simp add: round_even_def)
  next
    case 2
    then have f: "\<lfloor>y\<rfloor> = m - 1" by (simp add: floor_unique)
    have "y - of_int (m - 1) = 1 / 2" using 2 by simp
    then show ?thesis using assms(2) f by (simp add: round_even_def Let_def)
  qed
qed

lemma round_even_nearest:
  assumes "\<bar>y - of_int m\<bar> < 1 / 2 \<or> (\<bar>y - of_int m\<bar> = 1 / 2 \<and> even m)"
  shows "round_even y = m"
  using assms round_even_near round_even_tie by blast

lemma rnd_cert:
  assumes "0 < x" and "k \<le> 1074"
    and "2 ^ 52 \<le> x * 2 ^ k" and "x * 2 ^ k < 2 ^ 53"
    and "\<bar>x * 2 ^ k - of_int m\<bar> < 1 / 2 \<or> (\<bar>x * 2 ^ k - of_int m\<bar> = 1 / 2 \<and> even m)"
    and "y = of_int m / 2 ^ k"
  shows "rnd x = Fin y"
proof -
  define e :: int where "e = 52 - int k"
  have pk: "(2::rat) powi (e - 52) = 1 / 2 ^ k"
    by (simp add: e_def power_int_def field_simps)
  have pe: "(2::rat) powi e = 2 ^ 52 / 2 ^ k"
    using power_int_diff[of "2::rat" 52 "int k"] by (simp add: e_def)
  have pe1: "(2::rat) powi (e + 1) = 2 ^ 53 / 2 ^ k"
    using power_int_diff[of "2::rat" 53 "int k"] by (simp add: e_def)
  have lo: "2 powi e \<le> x" using assms(3) by (simp add: pe pos_divide_le_eq)
  have hi: "x < 2 powi (e + 1)" using assms(4) by (simp add: pe1 pos_less_divide_eq)
  have il: "ilog2 x = e" by (rule ilog2_unique[OF assms(1) lo hi])
  have emax: "max e (- 1022) = e" using assms(2) by (simp add: e_def)
  have re: "round_even (x * 2 ^ k) = m"
    using assms(5) by (rule round_even_nearest)
  have "\<bar>x * 2 ^ k - of_int m\<bar> \<le> 1 / 2" using assms(5) by auto
  then have m53: "(of_int m :: rat) < 2 ^ 53 + 1 / 2" using assms(4) by linarith
  have "(of_int m :: rat) \<le> 2 ^ 53"
  proof -
    have "(of_int m :: rat) < of_int (2 ^ 53 + 1)" using m53 by simp
    then have "m < 2 ^ 53 + 1" by (simp only: of_int_less_iff)
    then show ?thesis by simp
  qed
  then have "y \<le> 2 ^ 53 / 2 ^ k" unfolding assms(6) by (simp add: divide_right_mono)
  also have "\<dots> = 2 powi (e + 1)" by (simp add: pe1)
  also have "\<dots> < 2 powi 1024"
    using assms(2) by (intro power_int_strict_increasing) (simp_all add: e_def)
  finally have "\<not> (2::rat) powi 1024 \<le> of_int m * (1 / 2 ^ k)" by (simp add: assms(6))
  then show ?thesis
    using assms(1) by (simp add: rnd_def Let_def il emax pk re assms(6))
qed

lemma rnd_neg: "rnd (- x) = jneg (rnd x)"
  by (auto simp: rnd_def Let_def)

lemma power_int_less_imp_less:
  assumes "(2::rat) powi a < 2 powi b"
  shows "a < b"
  using assms power_int_increasing[of b a "2::rat"] by (cases "a < b") auto

lemma rnd_relative:
  assumes "1 / 2 ^ 100 \<le> x" "x \<le> 2 ^ 100"
  shows "\<exists>y. rnd x = Fin y \<and> x * (1 - 1 / 2 ^ 53) \<le> y \<and> y \<le> x * (1 + 1 / 2 ^ 53)"
proof -
  have x: "0 < x" using assms(1) by (rule less_le_trans[rotated]) simp
  define e where "e = ilog2 x"
  have lo: "2 powi e \<le> x" and hi: "x < 2 powi (e + 1)"
    using ilog2_bounds[OF x] by (simp_all add: e_def)
  have "(2::rat) powi (- 100) < 2 powi (e + 1)"
    using assms(1) hi by (simp add: power_int_minus divide_simps)
  then have e1: "- 100 \<le> e" using power_int_less_imp_less by fastforce
  have "(2::rat) powi e < 2 powi 101"
    using lo assms(2) by (simp add: le_less_trans[of _ "2 ^ 100"])
  then have e2: "e \<le> 1000" using power_int_less_imp_less by fastforce
  have emax: "max e (- 1022) = e" using e1 by simp
  define u where "u = (2::rat) powi (e - 52)"
  have u: "0 < u" by (simp add: u_def)
  define v where "v = (of_int (round_even (x / u)) :: rat) * u"
  have "\<bar>of_int (round_even (x / u)) - x / u\<bar> \<le> 1 / 2"
    using round_even_lower[of "x / u"] round_even_upper[of "x / u"] by linarith
  then have "\<bar>of_int (round_even (x / u)) - x / u\<bar> * u \<le> 1 / 2 * u"
    using u by (intro mult_right_mono) simp_all
  moreover have "\<bar>of_int (round_even (x / u)) - x / u\<bar> * u = \<bar>v - x\<bar>"
  proof -
    have "v - x = (of_int (round_even (x / u)) - x / u) * u"
      using u by (simp add: v_def left_diff_distrib)
    then have "\<bar>v - x\<bar> = \<bar>of_int (round_even (x / u)) - x / u\<bar> * \<bar>u\<bar>"
      by (simp only: abs_mult)
    then show ?thesis using u by simp
  qed
  ultimately have vx: "\<bar>v - x\<bar> \<le> u / 2" by simp
  have "u = 2 powi e / 2 ^ 52"
    using power_int_diff[of "2::rat" e 52] by (simp add: u_def)
  then have "u / 2 \<le> x / 2 ^ 53" using lo by (simp add: divide_simps)
  then have err: "\<bar>v - x\<bar> \<le> x / 2 ^ 53" using vx by linarith
  have "v \<le> x + x / 2 ^ 53" using err by linarith
  also have "\<dots> \<le> 2 * x" using x by simp
  also have "\<dots> < 2 powi 1024" using assms(2) by simp
  finally have "\<not> 2 powi 1024 \<le> v" by simp
  then have "rnd x = Fin v"
    using x by (simp add: rnd_def Let_def e_def[symmetric] emax u_def[symmetric] v_def[symmetric])
  moreover have "x * (1 - 1 / 2 ^ 53) \<le> v" "v \<le> x * (1 + 1 / 2 ^ 53)"
  proof -
    have a: "x * (1 - 1 / 2 ^ 53) = x - x / 2 ^ 53" "x * (1 + 1 / 2 ^ 53) = x + x / 2 ^ 53"
      by (simp_all add: algebra_simps)
    show "x * (1 - 1 / 2 ^ 53) \<le> v" unfolding a using err by linarith
    show "v \<le> x * (1 + 1 / 2 ^ 53)" unfolding a using err by linarith
  qed
  ultimately show ?thesis by blast
qed


subsection \<open>The roundings the examples meet\<close>

lemma rnd_tenth: "rnd (1 / 10) = Fin (3602879701896397 / 36028797018963968)"
  by (rule rnd_cert[where k = 56 and m = 7205759403792794]) simp_all

lemma rnd_9: "rnd (9) = Fin (9)"
  by (rule rnd_cert[where k = 49 and m = 5066549580791808]) simp_all

lemma rnd_12: "rnd (12) = Fin (12)"
  by (rule rnd_cert[where k = 49 and m = 6755399441055744]) simp_all

lemma rnd_tenth_of_112: "rnd (25220157913274779 / 2251799813685248) = Fin (6305039478318695 / 562949953421312)"
  by (rule rnd_cert[where k = 49 and m = 6305039478318695]) simp_all

lemma rnd_tenth_of_109: "rnd (392713887506707273 / 36028797018963968) = Fin (6136154492292301 / 562949953421312)"
  by (rule rnd_cert[where k = 49 and m = 6136154492292301]) simp_all

lemma rnd_3_28: "rnd (3 / 28) = Fin (7720456504063707 / 72057594037927936)"
  by (rule rnd_cert[where k = 56 and m = 7720456504063707]) simp_all

lemma rnd_9_109: "rnd (9 / 109) = Fin (1487427399865485 / 18014398509481984)"
  by (rule rnd_cert[where k = 56 and m = 5949709599461940]) simp_all

lemma rnd_1_minus_3_28: "rnd (64337137533864229 / 72057594037927936) = Fin (8042142191733029 / 9007199254740992)"
  by (rule rnd_cert[where k = 53 and m = 8042142191733029]) simp_all

lemma rnd_1_minus_9_109: "rnd (16526971109616499 / 18014398509481984) = Fin (4131742777404125 / 4503599627370496)"
  by (rule rnd_cert[where k = 53 and m = 8263485554808250]) simp_all

lemma rnd_twentieth: "rnd (1 / 20) = Fin (3602879701896397 / 72057594037927936)"
  by (rule rnd_cert[where k = 57 and m = 7205759403792794]) simp_all

lemma rnd_twentieth_exact: "rnd (3602879701896397 / 72057594037927936) = Fin (3602879701896397 / 72057594037927936)"
  by (rule rnd_cert[where k = 57 and m = 7205759403792794]) simp_all

lemma rnd_tenth_of_twentieth: "rnd (12980742146337070512478121581609 / 2596148429267413814265248164610048) = Fin (1441151880758559 / 288230376151711744)"
  by (rule rnd_cert[where k = 60 and m = 5764607523034236]) simp_all

lemma rnd_2_3: "rnd (2 / 3) = Fin (6004799503160661 / 9007199254740992)"
  by (rule rnd_cert[where k = 53 and m = 6004799503160661]) simp_all

lemma rnd_1: "rnd 1 = Fin 1"
  by (rule rnd_cert[where k = 52 and m = "2 ^ 52"]) simp_all


lemma rnd_1_3: "rnd (1 / 3) = Fin (6004799503160661 / 18014398509481984)"
  by (rule rnd_cert[where k = 54 and m = 6004799503160661]) simp_all

lemma rnd_1_minus_1_3: "rnd (12009599006321323 / 18014398509481984) = Fin (3002399751580331 / 4503599627370496)"
  by (rule rnd_cert[where k = 53 and m = 6004799503160662]) simp_all


lemma rnd_100: "rnd (100) = Fin (100)"
  by (rule rnd_cert[where k = 46 and m = 7036874417766400]) simp_all

lemma rnd_50: "rnd (50) = Fin (50)"
  by (rule rnd_cert[where k = 47 and m = 7036874417766400]) simp_all

lemma rnd_half: "rnd (1 / 2) = Fin (1 / 2)"
  by (rule rnd_cert[where k = 53 and m = 4503599627370496]) simp_all


lemma rnd_fifth_rate: "rnd (1 / 5) = Fin (3602879701896397 / 18014398509481984)"
  by (rule rnd_cert[where k = 55 and m = 7205759403792794]) simp_all

lemma rnd_fifth_double: "rnd (3602879701896397 / 9007199254740992) = Fin (3602879701896397 / 9007199254740992)"
  by (rule rnd_cert[where k = 54 and m = 7205759403792794]) simp_all

lemma rnd_fifth_product: "rnd (12980742146337070512478121581609 / 162259276829213363391578010288128) = Fin (1441151880758559 / 18014398509481984)"
  by (rule rnd_cert[where k = 56 and m = 5764607523034236]) simp_all

lemma rnd_fifth_quotient: "rnd (1441151880758559 / 7205759403792794) = Fin (7205759403792795 / 36028797018963968)"
  by (rule rnd_cert[where k = 55 and m = 7205759403792795]) simp_all

lemma rnd_three_quarters_rate: "rnd (3 / 4) = Fin (3 / 4)"
  by (rule rnd_cert[where k = 53 and m = 6755399441055744]) simp_all

lemma rnd_three_quarters_double: "rnd (3 / 2) = Fin (3 / 2)"
  by (rule rnd_cert[where k = 52 and m = 6755399441055744]) simp_all

lemma rnd_three_quarters_product: "rnd (9 / 8) = Fin (9 / 8)"
  by (rule rnd_cert[where k = 52 and m = 5066549580791808]) simp_all



lemmas c1_rnd = rnd_tenth rnd_9 rnd_12 rnd_tenth_of_112 rnd_tenth_of_109 rnd_3_28 rnd_9_109
  rnd_1_minus_3_28 rnd_1_minus_9_109 rnd_neg

section \<open>The branches of the comparator\<close>

lemma strict_eq_truthy: "strict_eq x y \<Longrightarrow> truthy x = truthy y"
  by (cases x; cases y) auto

lemma deepCompare_falsy:
  assumes "truthy expd \<noteq> truthy actl"
  shows "deepCompare rt expd actl pth acc = (False, pushDifference acc pth expd actl (Fin 0))"
proof -
  have "\<not> strict_eq expd actl" using assms strict_eq_truthy by blast
  moreover have "\<not> truthy expd \<or> \<not> truthy actl" using assms by auto
  ultimately show ?thesis by (simp add: deepCompare.simps)
qed

lemma deepCompare_array_length:
  assumes "length es \<noteq> length as"
  shows "deepCompare rt (JArr es) (JArr as) pth acc =
     (False, pushDifference acc pth
        (JStr (''Array('' @ show_nat (length es) @ '')''))
        (JStr (''Array('' @ show_nat (length as) @ '')''))
        (jdiv (num_of_nat (min (length es) (length as)))
              (num_of_nat (max (length es) (length as)))))"
  using assms by (simp add: deepCompare.simps)

section \<open>The table of the string similarity\<close>

lemma lev_zero_right: "lev a b i 0 = i"
  by (cases i) simp_all

lemma lev_le_max: "lev a b i j \<le> max i j"
  by (induction a b i j rule: lev.induct) auto

lemma fold_upt_invariant:
  assumes "P a t" and "a \<le> b"
    and "\<And>i s. a \<le> i \<Longrightarrow> i < b \<Longrightarrow> P i s \<Longrightarrow> P (Suc i) (f i s)"
  shows "P b (fold f [a..<b] t)"
  using assms(2,3)
proof (induction b)
  case 0
  then show ?case using assms(1) by simp
next
  case (Suc b)
  show ?case
  proof (cases "a = Suc b")
    case True
    then show ?thesis using assms(1) by simp
  next
    case False
    then have ab: "a \<le> b" using Suc.prems(1) by simp
    have "P b (fold f [a..<b] t)"
      using Suc.IH[OF ab] Suc.prems(2) by simp
    then have "P (Suc b) (f b (fold f [a..<b] t))"
      using Suc.prems(2)[of b] ab by simp
    then show ?thesis using ab by simp
  qed
qed

lemma setCell_ok:
  "table_ok n1 n2 t \<Longrightarrow> table_ok n1 n2 (setCell t j i v)"
  by (cases "j < length t") (auto simp: table_ok_def setCell_def nth_list_update)

lemma setCell_nth:
  assumes "table_ok n1 n2 t" "j \<le> n2" "i \<le> n1" "r \<le> n2" "c \<le> n1"
  shows "setCell t j i v ! r ! c = (if r = j \<and> c = i then v else t ! r ! c)"
  using assms by (auto simp: table_ok_def setCell_def nth_list_update)

lemma initTrack_ok: "table_ok (length str1) (length str2) (initTrack str1 str2)"
proof -
  have "\<And>r. r \<le> length str2 \<Longrightarrow>
      length (replicate (length str2 + 1) (replicate (length str1 + 1) (0::nat)) ! r) = length str1 + 1"
    using nth_replicate[of _ "length str2 + 1" "replicate (length str1 + 1) (0::nat)"]
    by (simp del: replicate.simps replicate_Suc)
  then show ?thesis unfolding table_ok_def initTrack_def by (simp del: replicate.simps replicate_Suc)
qed

lemma fillFirstRow_spec:
  assumes "table_ok (length str1) n2 t"
  shows "table_ok (length str1) n2 (fillFirstRow str1 t)
    \<and> (\<forall>c \<le> length str1. fillFirstRow str1 t ! 0 ! c = c)"
proof -
  let ?P = "\<lambda>i s. table_ok (length str1) n2 s \<and> (\<forall>c < i. s ! 0 ! c = c)"
  have "?P (length str1 + 1) (fold (\<lambda>i t. setCell t 0 i i) [0..<length str1 + 1] t)"
  proof (rule fold_upt_invariant[where P = ?P])
    show "?P 0 t" using assms by simp
    show "0 \<le> length str1 + 1" by simp
    fix i s assume "0 \<le> i" "i < length str1 + 1" "?P i s"
    then show "?P (Suc i) (setCell s 0 i i)"
      by (auto simp: setCell_ok setCell_nth[where ?n1.0 = "length str1" and ?n2.0 = n2] less_Suc_eq)
  qed
  then show ?thesis by (auto simp: fillFirstRow_def)
qed

lemma fillFirstColumn_spec:
  assumes "table_ok n1 (length str2) t" "\<forall>c \<le> n1. t ! 0 ! c = c"
  shows "table_ok n1 (length str2) (fillFirstColumn str2 t)
    \<and> (\<forall>c \<le> n1. fillFirstColumn str2 t ! 0 ! c = c)
    \<and> (\<forall>r \<le> length str2. fillFirstColumn str2 t ! r ! 0 = r)"
proof -
  let ?P = "\<lambda>j s. table_ok n1 (length str2) s \<and> (\<forall>c \<le> n1. s ! 0 ! c = c) \<and> (\<forall>r < j. s ! r ! 0 = r)"
  have "?P (length str2 + 1) (fold (\<lambda>j t. setCell t j 0 j) [0..<length str2 + 1] t)"
  proof (rule fold_upt_invariant[where P = ?P])
    show "?P 0 t" using assms by simp
    show "0 \<le> length str2 + 1" by simp
    fix j s assume "0 \<le> j" "j < length str2 + 1" "?P j s"
    then show "?P (Suc j) (setCell s j 0 j)"
      by (auto simp: setCell_ok setCell_nth[where ?n1.0 = n1 and ?n2.0 = "length str2"] less_Suc_eq)
  qed
  then show ?thesis by (auto simp: fillFirstColumn_def)
qed

lemma filledI:
  assumes "table_ok (length str1) (length str2) t"
    and "\<And>r c. r \<le> length str2 \<Longrightarrow> c \<le> length str1 \<Longrightarrow>
        (r = 0 \<or> c = 0 \<or> r < j \<or> (r = j \<and> c < i)) \<Longrightarrow> t ! r ! c = lev str1 str2 c r"
  shows "filled str1 str2 t j i"
  using assms unfolding filled_def by blast

lemma filledD:
  assumes "filled str1 str2 t j i" "r \<le> length str2" "c \<le> length str1"
    "r = 0 \<or> c = 0 \<or> r < j \<or> (r = j \<and> c < i)"
  shows "t ! r ! c = lev str1 str2 c r"
  using assms unfolding filled_def by blast

lemma fillCell_step:
  assumes "filled str1 str2 t j i" "1 \<le> j" "j \<le> length str2" "1 \<le> i" "i \<le> length str1"
  shows "filled str1 str2 (fillCell str1 str2 j i t) j (Suc i)"
proof -
  obtain i' j' where ij: "i = Suc i'" "j = Suc j'"
    using assms(2,4) by (metis One_nat_def Suc_le_D)
  have ok: "table_ok (length str1) (length str2) t" using assms(1) by (simp add: filled_def)
  have cells: "\<And>r c. r \<le> length str2 \<Longrightarrow> c \<le> length str1 \<Longrightarrow>
        (r = 0 \<or> c = 0 \<or> r < j \<or> (r = j \<and> c < i)) \<Longrightarrow> t ! r ! c = lev str1 str2 c r"
    using filledD[OF assms(1)] by blast
  have a: "t ! j ! (i - 1) = lev str1 str2 i' j" using cells[of j i'] assms ij by simp
  have b: "t ! (j - 1) ! i = lev str1 str2 i j'" using cells[of j' i] assms ij by simp
  have c: "t ! (j - 1) ! (i - 1) = lev str1 str2 i' j'" using cells[of j' i'] assms ij by simp
  have new: "fillCell str1 str2 j i t = setCell t j i (lev str1 str2 i j)"
    using a b c by (simp add: fillCell_def Let_def ij)
  show ?thesis
    unfolding new
  proof (rule filledI)
    show "table_ok (length str1) (length str2) (setCell t j i (lev str1 str2 i j))"
      using ok by (rule setCell_ok)
    fix r c
    assume rc: "r \<le> length str2" "c \<le> length str1"
      and cond: "r = 0 \<or> c = 0 \<or> r < j \<or> (r = j \<and> c < Suc i)"
    have nth: "setCell t j i (lev str1 str2 i j) ! r ! c =
        (if r = j \<and> c = i then lev str1 str2 i j else t ! r ! c)"
      using setCell_nth[OF ok assms(3,5) rc] .
    show "setCell t j i (lev str1 str2 i j) ! r ! c = lev str1 str2 c r"
    proof (cases "r = j \<and> c = i")
      case True
      then show ?thesis using nth by simp
    next
      case False
      then have "r = 0 \<or> c = 0 \<or> r < j \<or> (r = j \<and> c < i)" using cond by auto
      then have "t ! r ! c = lev str1 str2 c r" using cells rc by blast
      then show ?thesis using nth False by simp
    qed
  qed
qed

lemma fillRow_step:
  assumes "filled str1 str2 t j 1" "1 \<le> j" "j \<le> length str2"
  shows "filled str1 str2 (fillRow str1 str2 j t) (Suc j) 1"
proof -
  have "filled str1 str2 (fold (fillCell str1 str2 j) [1..<length str1 + 1] t) j (length str1 + 1)"
  proof (rule fold_upt_invariant[where P = "\<lambda>i s. filled str1 str2 s j i"])
    show "filled str1 str2 t j 1" by (rule assms(1))
    show "1 \<le> length str1 + 1" by simp
    fix i s assume "1 \<le> i" "i < length str1 + 1" "filled str1 str2 s j i"
    then show "filled str1 str2 (fillCell str1 str2 j i s) j (Suc i)"
      using fillCell_step[of str1 str2 s j i] assms(2,3) by simp
  qed
  then have f: "filled str1 str2 (fillRow str1 str2 j t) j (length str1 + 1)"
    by (simp only: fillRow_def)
  show ?thesis
  proof (rule filledI)
    show "table_ok (length str1) (length str2) (fillRow str1 str2 j t)"
      using f by (simp add: filled_def)
    fix r c
    assume rc: "r \<le> length str2" "c \<le> length str1"
      and cond: "r = 0 \<or> c = 0 \<or> r < Suc j \<or> (r = Suc j \<and> c < 1)"
    have "r = 0 \<or> c = 0 \<or> r < j \<or> (r = j \<and> c < length str1 + 1)"
      using cond rc by auto
    then show "fillRow str1 str2 j t ! r ! c = lev str1 str2 c r"
      using filledD[OF f rc] by blast
  qed
qed

lemma fillTable_spec:
  assumes "filled str1 str2 t 1 1"
  shows "filled str1 str2 (fillTable str1 str2 t) (length str2 + 1) 1"
  unfolding fillTable_def
proof (rule fold_upt_invariant[where P = "\<lambda>j s. filled str1 str2 s j 1"])
  show "filled str1 str2 t 1 1" by (rule assms)
  show "1 \<le> length str2 + 1" by simp
  fix j s assume "1 \<le> j" "j < length str2 + 1" "filled str1 str2 s j 1"
  then show "filled str1 str2 (fillRow str1 str2 j s) (Suc j) 1"
    using fillRow_step[of str1 str2 s j] by simp
qed

lemma editDistance_levenshtein: "editDistance str1 str2 = levenshtein str1 str2"
proof -
  let ?t1 = "fillFirstRow str1 (initTrack str1 str2)"
  let ?t2 = "fillFirstColumn str2 ?t1"
  have r1: "table_ok (length str1) (length str2) ?t1 \<and> (\<forall>c \<le> length str1. ?t1 ! 0 ! c = c)"
    by (rule fillFirstRow_spec[OF initTrack_ok])
  have r2: "table_ok (length str1) (length str2) ?t2
    \<and> (\<forall>c \<le> length str1. ?t2 ! 0 ! c = c) \<and> (\<forall>r \<le> length str2. ?t2 ! r ! 0 = r)"
    using fillFirstColumn_spec[of "length str1" str2 ?t1] r1 by blast
  have "filled str1 str2 ?t2 1 1"
    unfolding filled_def using r2 by (auto simp: lev_zero_right)
  then have "filled str1 str2 (fillTable str1 str2 ?t2) (length str2 + 1) 1"
    by (rule fillTable_spec)
  then show ?thesis
    by (simp add: filled_def editDistance_def levenshtein_def)
qed

lemma lev_same: "lev a a i i = 0"
  by (induction i) simp_all

lemma lev_zero_left: "lev a b 0 j = j"
  by simp

lemma calculateStringSimilarity_levenshtein:
  "calculateStringSimilarity str1 str2 =
     jsub (Fin 1) (jdiv (num_of_nat (levenshtein str1 str2))
                        (num_of_nat (max (length str1) (length str2))))"
  by (simp add: calculateStringSimilarity_def editDistance_levenshtein)

lemma similarity_same: "s \<noteq> [] \<Longrightarrow> calculateStringSimilarity s s = Fin 1"
  by (simp add: calculateStringSimilarity_levenshtein levenshtein_def lev_same num_of_nat_def
      jsub_def rnd_zero rnd_1)

lemma similarity_empty_left: "s \<noteq> [] \<Longrightarrow> calculateStringSimilarity [] s = Fin 0"
  by (simp add: calculateStringSimilarity_levenshtein levenshtein_def num_of_nat_def
      jsub_def rnd_zero rnd_1)

lemma similarity_empty_right: "s \<noteq> [] \<Longrightarrow> calculateStringSimilarity s [] = Fin 0"
  by (simp add: calculateStringSimilarity_levenshtein levenshtein_def lev_zero_right num_of_nat_def
      jsub_def rnd_zero rnd_1)

lemma deepCompare_strings:
  assumes "s1 \<noteq> [] \<or> s2 \<noteq> []"
  shows "deepCompare rt (JStr s1) (JStr s2) pth acc =
     (jlt (Fin 0) (calculateStringSimilarity s1 s2),
      if jlt (calculateStringSimilarity s1 s2) (Fin 1)
      then pushDifference acc pth (JStr s1) (JStr s2) (calculateStringSimilarity s1 s2)
      else acc)"
proof (cases "s1 = s2")
  case True
  then show ?thesis using assms by (simp add: deepCompare.simps similarity_same)
next
  case ne: False
  show ?thesis
  proof (cases "s1 = [] \<or> s2 = []")
    case True
    then show ?thesis
      using assms ne deepCompare_falsy[of "JStr s1" "JStr s2" rt pth acc]
      by (auto simp: similarity_empty_left similarity_empty_right)
  next
    case False
    then show ?thesis using ne by (simp add: deepCompare.simps Let_def)
  qed
qed

lemma levenshtein_cat_hat: "levenshtein ''cat'' ''hat'' = 1"
  by (simp add: levenshtein_def eval_nat_numeral)

lemma levenshtein_abc_xyz: "levenshtein ''abc'' ''xyz'' = 3"
  by (simp add: levenshtein_def eval_nat_numeral)


section \<open>Similarities are in range\<close>

lemma in_unit_rnd: "0 \<le> x \<Longrightarrow> x \<le> 1 \<Longrightarrow> in_unit (rnd x)"
  using rnd_unit[of x] by auto

lemma in_unit_jdiv:
  assumes "a \<le> b" "0 < b"
  shows "in_unit (jdiv (num_of_nat a) (num_of_nat b))"
proof -
  have "(of_nat a :: rat) / of_nat b \<le> 1" using assms by (simp add: divide_le_eq_1)
  then show ?thesis using assms by (simp add: num_of_nat_def in_unit_rnd)
qed

lemma in_unit_one_minus:
  assumes "in_unit y"
  shows "in_unit (jsub (Fin 1) y)"
proof -
  obtain q where q: "y = Fin q" "0 \<le> q" "q \<le> 1" using assms by (cases y) auto
  then show ?thesis by (simp add: jsub_def in_unit_rnd)
qed

lemma in_unit_string_similarity:
  assumes "str1 \<noteq> [] \<or> str2 \<noteq> []"
  shows "in_unit (calculateStringSimilarity str1 str2)"
proof -
  have "editDistance str1 str2 \<le> max (length str1) (length str2)"
    by (simp add: editDistance_levenshtein levenshtein_def lev_le_max)
  moreover have "0 < max (length str1) (length str2)" using assms by (auto simp: less_max_iff_disj)
  ultimately show ?thesis
    unfolding calculateStringSimilarity_def Let_def
    by (intro in_unit_one_minus in_unit_jdiv)
qed

lemma in_unit_number_similarity_finite:
  assumes "x \<noteq> 0 \<or> y \<noteq> 0"
  shows "in_unit (numberSimilarity (Fin x) (Fin y))"
proof -
  define m where "m = max \<bar>x\<bar> \<bar>y\<bar>"
  have m: "0 < m" using assms by (auto simp: m_def)
  have "in_unit (jmin (jdiv (jabs (jsub (Fin x) (Fin y))) (Fin m)) (Fin 1))"
  proof (cases "rnd (x - y)")
    case (Fin z)
    have "rnd (\<bar>z\<bar> / m) = PInf \<or> (\<exists>w. rnd (\<bar>z\<bar> / m) = Fin w \<and> 0 \<le> w)"
      using m by (intro rnd_nonneg_cases) simp
    then show ?thesis using Fin m by (auto simp: jsub_def)
  next
    case PInf
    then show ?thesis using m by (simp add: jsub_def)
  next
    case NInf
    then show ?thesis using m by (simp add: jsub_def)
  next
    case NaN
    then show ?thesis using rnd_nonneg_cases[of "x - y"] rnd_nonneg_cases[of "y - x"] rnd_neg[of "y - x"]
      by (cases "0 \<le> x - y") (auto)
  qed
  then show ?thesis
    unfolding numberSimilarity_def by (simp add: m_def in_unit_one_minus)
qed

lemma tenth_positive: "\<exists>t. rnd (1 / 10) = Fin t \<and> 0 < t"
  by (rule exI[of _ "3602879701896397 / 36028797018963968"]) (simp add: rnd_tenth)

lemma number_branch_similarity:
  assumes "truthy (JNum e)" "truthy (JNum a)" "\<not> strict_eq (JNum e) (JNum a)"
  shows "areNumbersClose e a \<or> in_unit (numberSimilarity e a)"
proof -
  obtain t where t: "rnd (1 / 10) = Fin t" "0 < t" using tenth_positive by blast
  show ?thesis
  proof (cases e)
    case (Fin x)
    show ?thesis
    proof (cases a)
      case (Fin y)
      then show ?thesis using \<open>e = Fin x\<close> in_unit_number_similarity_finite[of x y] assms by auto
    next
      case PInf
      then show ?thesis using \<open>e = Fin x\<close> t by (simp add: areNumbersClose_def jsub_def)
    next
      case NInf
      then show ?thesis using \<open>e = Fin x\<close> t by (simp add: areNumbersClose_def jsub_def)
    next
      case NaN
      then show ?thesis using assms by simp
    qed
  next
    case PInf
    then show ?thesis using assms t by (cases a) (simp_all add: areNumbersClose_def jsub_def)
  next
    case NInf
    then show ?thesis using assms t by (cases a) (simp_all add: areNumbersClose_def jsub_def)
  next
    case NaN
    then show ?thesis using assms by simp
  qed
qed

lemma deepCompare_object:
  assumes "\<not> strict_eq e a" "truthy e" "truthy a" "typeof e = TObject" "typeof a = TObject"
    "\<not> (is_array e \<and> is_array a)"
  shows "deepCompare rt e a pth acc =
     (if 0 < length (missingKeys rt e a) \<or> 0 < length (extraKeys rt e a) then
        (False, pushDifference acc pth
           (JStr (''Object('' @ join_with '', '' (keys_of e) @ '')''))
           (JStr (''Object('' @ join_with '', '' (keys_of a) @ '')''))
           (jdiv (num_of_nat (length (keys_of e) - length (missingKeys rt e a)))
                 (num_of_nat (max (length (keys_of e)) (length (keys_of a))))))
      else everyKey rt (entries_of e) a pth acc)"
  apply (subst deepCompare.simps)
  apply (simp only: assms Let_def missingKeys_def extraKeys_def if_False if_True simp_thms jstype.distinct)
  done

lemma similarityInRange_push:
  "in_unit s \<Longrightarrow> list_all similarityInRange acc \<Longrightarrow>
     list_all similarityInRange (pushDifference acc pth e a s)"
  by (simp add: pushDifference_def similarityInRange_def)

lemma filter_length_pos: "0 < length (filter P xs) \<Longrightarrow> 0 < length xs"
  by (cases xs) auto

lemma deepCompare_similarity:
  "list_all similarityInRange acc \<Longrightarrow>
     list_all similarityInRange (snd (deepCompare rt expd actl pth acc))"
  "list_all similarityInRange acc \<Longrightarrow>
     list_all similarityInRange (snd (everyItem rt xs actl index pth acc))"
  "list_all similarityInRange acc \<Longrightarrow>
     list_all similarityInRange (snd (everyKey rt kvs actl pth acc))"
proof (induction rt expd actl pth acc and rt xs actl index pth acc and rt kvs actl pth acc
    rule: deepCompare_everyItem_everyKey.induct)
  case (1 rt expd actl pth acc)
  have zero: "in_unit (Fin 0)" by simp
  note push = similarityInRange_push[OF _ "1.prems"]
  show ?case
  proof (cases "strict_eq expd actl")
    case True
    then show ?thesis using "1.prems" by (simp add: deepCompare.simps)
  next
    case ne: False
    show ?thesis
    proof (cases "\<not> truthy expd \<or> \<not> truthy actl")
      case True
      then show ?thesis using ne push[OF zero] by (simp add: deepCompare.simps)
    next
      case tr: False
      show ?thesis
      proof (cases "typeof expd \<noteq> typeof actl")
        case True
        then show ?thesis using ne tr push[OF zero] by (simp add: deepCompare.simps)
      next
        case ty: False
        show ?thesis
        proof (cases "typeof expd")
          case TUndefined
          then show ?thesis using ne tr ty by (cases expd) simp_all
        next
          case TBoolean
          then show ?thesis using ne tr ty push[OF zero] by (simp add: deepCompare.simps)
        next
          case TNumber
          then obtain e a where ea: "expd = JNum e" "actl = JNum a"
            using ty by (cases expd; cases actl) simp_all
          have "areNumbersClose e a \<or> in_unit (numberSimilarity e a)"
            using number_branch_similarity[of e a] ne tr ea by simp
          then show ?thesis
            using ne tr ty ea push[of "numberSimilarity e a"] "1.prems"
            by (auto simp add: deepCompare.simps Let_def)
        next
          case TString
          then obtain s1 s2 where ss: "expd = JStr s1" "actl = JStr s2"
            using ty by (cases expd; cases actl) simp_all
          have "in_unit (calculateStringSimilarity s1 s2)"
            using in_unit_string_similarity[of s1 s2] tr ss by simp
          then show ?thesis
            using ne tr ty ss push[of "calculateStringSimilarity s1 s2"] "1.prems"
            by (auto simp add: deepCompare.simps Let_def)
        next
          case TFunction
          then show ?thesis using ne tr ty push[OF zero] 
            by (cases expd; cases actl) (simp_all add: deepCompare.simps)
        next
          case TObject
          show ?thesis
          proof (cases "is_array expd \<and> is_array actl")
            case True
            then obtain es as where ea: "expd = JArr es" "actl = JArr as"
              by (cases expd; cases actl) simp_all
            show ?thesis
            proof (cases "length es = length as")
              case True
              then show ?thesis
                using "1.IH"(1)[OF ne] tr ty TObject ea "1.prems" by (simp add: deepCompare.simps)
            next
              case False
              then have "in_unit (jdiv (num_of_nat (min (length es) (length as)))
                    (num_of_nat (max (length es) (length as))))"
                by (intro in_unit_jdiv) auto
              then show ?thesis
                using False ea push by (simp add: deepCompare.simps)
            qed
          next
            case na: False
            have tr': "truthy expd" "truthy actl" using tr by auto
            have ty': "typeof actl = TObject" using ty TObject by simp
            note eq = deepCompare_object[OF ne tr' TObject ty' na, of rt pth acc]
            show ?thesis
            proof (cases "0 < length (missingKeys rt expd actl) \<or> 0 < length (extraKeys rt expd actl)")
              case True
              then have "0 < length (keys_of expd) \<or> 0 < length (keys_of actl)"
                using filter_length_pos[of "\<lambda>k. \<not> has_property rt actl k" "keys_of expd"]
                  filter_length_pos[of "\<lambda>k. \<not> has_property rt expd k" "keys_of actl"]
                unfolding missingKeys_def extraKeys_def by blast
              then have "0 < max (length (keys_of expd)) (length (keys_of actl))"
                by (simp add: less_max_iff_disj)
              moreover have "length (keys_of expd) - length (missingKeys rt expd actl)
                  \<le> max (length (keys_of expd)) (length (keys_of actl))" by simp
              ultimately have "in_unit (jdiv (num_of_nat (length (keys_of expd) - length (missingKeys rt expd actl)))
                   (num_of_nat (max (length (keys_of expd)) (length (keys_of actl)))))"
                by (intro in_unit_jdiv)
              then show ?thesis
                unfolding eq using True push by simp
            next
              case False
              have "list_all similarityInRange (snd (everyKey rt (entries_of expd) actl pth acc))"
                using ne tr ty TObject na False "1.prems"
                by (intro "1.IH"(2)) (auto simp: missingKeys_def extraKeys_def)
              then show ?thesis
                unfolding eq using False by simp 
            qed
          qed
        qed
      qed
    qed
  qed
next
  case (2 rt actl index pth acc)
  then show ?case by simp
next
  case (3 rt item rest actl index pth acc)
  obtain ok acc' where dc:
    "deepCompare rt item (get_property rt actl (show_nat index)) (pth @ [show_nat index]) acc = (ok, acc')"
    by (cases "deepCompare rt item (get_property rt actl (show_nat index)) (pth @ [show_nat index]) acc")
  have a: "list_all similarityInRange acc'" using "3.IH"(1)[OF "3.prems"] dc by simp
  show ?case
  proof (cases ok)
    case True
    then show ?thesis using "3.IH"(2)[OF dc[symmetric] True a] dc by simp
  next
    case False
    then show ?thesis using a dc by simp
  qed
next
  case (4 rt actl pth acc)
  then show ?case by simp
next
  case (5 rt k v rest actl pth acc)
  obtain ok acc' where dc:
    "deepCompare rt v (get_property rt actl k) (pth @ [k]) acc = (ok, acc')"
    by (cases "deepCompare rt v (get_property rt actl k) (pth @ [k]) acc")
  have a: "list_all similarityInRange acc'" using "5.IH"(1)[OF "5.prems"] dc by simp
  show ?case
  proof (cases ok)
    case True
    then show ?thesis using "5.IH"(2)[OF dc[symmetric] True a] dc by simp
  next
    case False
    then show ?thesis using a dc by simp
  qed
qed

section \<open>The case evaluator\<close>

lemma compareResponses_parsed:
  assumes "parseIfString rt expd = Inr expectedObj" "parseIfString rt actl = Inr actualObj"
  shows "isMatch (compareResponses rt expd actl) = fst (deepCompare rt expectedObj actualObj [] [])"
    and "cmpDifferences (compareResponses rt expd actl) =
           nonEmpty (snd (deepCompare rt expectedObj actualObj [] []))"
  using assms
  by (simp_all add: compareResponses_def compareResponsesTry_def Let_def split: prod.splits)

lemma compareResponses_failed:
  assumes "parseIfString rt expd = Inl err \<or> parseIfString rt actl = Inl err"
  shows "compareResponses rt expd actl =
     \<lparr>isMatch = False, cmpDifferences = Some [parseErrorDifference expd actl],
      cmpMatchedFields = None, cmpMissingFields = None, cmpExtraFields = None\<rparr>"
  using assms
  by (cases err)
     (auto simp add: compareResponses_def compareResponsesTry_def parseErrorDifference_def
       split: sum.splits)

lemma evaluateTestCase_fields:
  "isFinished (evaluateTestCase rt expd actl elapsed spent inp) = True"
  "isSuccess (evaluateTestCase rt expd actl elapsed spent inp) = isMatch (compareResponses rt expd actl)"
  "differences (evaluateTestCase rt expd actl elapsed spent inp) =
     cmpDifferences (compareResponses rt expd actl)"
  "matchedFields (evaluateTestCase rt expd actl elapsed spent inp) =
     cmpMatchedFields (compareResponses rt expd actl)"
  by (simp_all add: evaluateTestCase_def Let_def)


lemma distinct_newSet: "distinct (newSet xs)"
  by (simp add: newSet_def)

lemma evaluateTestCase_distinctFields:
  "distinctFields (evaluateTestCase rt expd actl elapsed spent inp)"
  by (auto simp: distinctFields_def evaluateTestCase_fields compareResponses_def
      compareResponsesTry_def Let_def distinct_newSet split: sum.splits prod.splits option.splits)


section \<open>The object branch\<close>

lemmas eval_object =
  deepCompare.simps keys_of_def has_property_def get_property_def
  exampleRuntime_def objectPrototype_def pushDifference_def pathKey_def num_of_nat_def Let_def

lemma filter_nonempty: "0 < length (filter P xs) \<longleftrightarrow> (\<exists>x \<in> set xs. P x)"
  by (induction xs) auto


section \<open>The metrics aggregator\<close>

lemma calculateMetrics_averages:
  "averageTime (calculateMetrics results) =
     jdiv (sumOf (map timeElapsed (filter isFinished results))) (num_of_nat (length results))"
  "averageCost (calculateMetrics results) =
     jdiv (sumOf (map cost (filter isFinished results))) (num_of_nat (length results))"
  by (simp_all add: calculateMetrics_def Let_def)

lemma map_of_mapSet: "map_of (mapSet k v xs) = (map_of xs)(k \<mapsto> v)"
  by (induction xs) auto

lemma map_of_countField:
  "map_of (countField b g fc) f =
     (if f = g then Some \<lparr>success = success (countsOf fc g) + (if b then 1 else 0),
                           total = total (countsOf fc g) + 1\<rparr>
      else map_of fc f)"
  by (simp add: countField_def Let_def map_of_mapSet countsOf_def)

lemma countsOf_countField:
  "countsOf (countField b g fc) f =
     (if f = g then \<lparr>success = success (countsOf fc g) + (if b then 1 else 0),
                      total = total (countsOf fc g) + 1\<rparr>
      else countsOf fc f)"
  by (simp add: countsOf_def map_of_countField)

lemma map_of_fold_countField:
  assumes "distinct names"
  shows "map_of (fold (countField b) names fc) f =
     (if f \<in> set names
      then Some \<lparr>success = success (countsOf fc f) + (if b then 1 else 0),
                 total = total (countsOf fc f) + 1\<rparr>
      else map_of fc f)"
  using assms
proof (induction names arbitrary: fc)
  case Nil
  then show ?case by simp
next
  case (Cons g names)
  then show ?case
    by (auto simp: map_of_countField countsOf_countField countsOf_def)
qed

lemma countFields_fold: "countFields results = fold countCase results []"
  by (simp add: countFields_def countCase_def[abs_def])

lemma map_of_countCase:
  assumes "distinctFields r"
  shows "map_of (countCase r fc) f =
     (if fieldCases f [r] = [] then map_of fc f
      else Some \<lparr>success = success (countsOf fc f) + (if isSuccess r then 1 else 0),
                 total = total (countsOf fc f) + 1\<rparr>)"
  using assms
  by (cases "matchedFields r")
     (auto simp: countCase_def fieldCases_def distinctFields_def map_of_fold_countField)

lemma fieldCases_Cons: "fieldCases f (r # rs) = fieldCases f [r] @ fieldCases f rs"
  by (simp add: fieldCases_def)

lemma map_of_fold_countCase:
  assumes "list_all distinctFields results"
  shows "map_of (fold countCase results fc) f =
     (if fieldCases f results = [] then map_of fc f
      else Some \<lparr>success = success (countsOf fc f) + length (filter isSuccess (fieldCases f results)),
                 total = total (countsOf fc f) + length (fieldCases f results)\<rparr>)"
  using assms
proof (induction results arbitrary: fc)
  case Nil
  then show ?case by (simp add: fieldCases_def)
next
  case (Cons r rs)
  have d: "distinctFields r" and ds: "list_all distinctFields rs" using Cons.prems by simp_all
  have one: "fieldCases f [r] = [] \<or> fieldCases f [r] = [r]" by (simp add: fieldCases_def)
  have step: "map_of (fold countCase rs (countCase r fc)) f =
     (if fieldCases f rs = [] then map_of (countCase r fc) f
      else Some \<lparr>success = success (countsOf (countCase r fc) f) + length (filter isSuccess (fieldCases f rs)),
                 total = total (countsOf (countCase r fc) f) + length (fieldCases f rs)\<rparr>)"
    using Cons.IH[OF ds, of "countCase r fc"] .
  have c: "countsOf (countCase r fc) f =
     (if fieldCases f [r] = [] then countsOf fc f
      else \<lparr>success = success (countsOf fc f) + (if isSuccess r then 1 else 0),
            total = total (countsOf fc f) + 1\<rparr>)"
    by (simp add: countsOf_def map_of_countCase[OF d])
  show ?case
    using one by (auto simp: step c map_of_countCase[OF d] fieldCases_Cons[of f r rs])
qed

lemma fieldSuccessRates_map:
  "fieldSuccessRates (calculateMetrics results) f =
     map_option (\<lambda>counts. jdiv (num_of_nat (success counts)) (num_of_nat (total counts)))
       (map_of (countFields results) f)"
proof -
  have "map_of (map (\<lambda>(field, counts). (field, jdiv (num_of_nat (success counts)) (num_of_nat (total counts)))) fc) f
      = map_option (\<lambda>counts. jdiv (num_of_nat (success counts)) (num_of_nat (total counts))) (map_of fc f)" for fc
    by (induction fc) auto
  then show ?thesis by (simp add: calculateMetrics_def Let_def)
qed


lemma calculateMetrics_accuracy:
  "successRate (calculateMetrics results) =
     jdiv (num_of_nat (length (filter isSuccess results))) (num_of_nat (length results))"
  "precision (calculateMetrics results) = successRate (calculateMetrics results)"
  "recall (calculateMetrics results) = successRate (calculateMetrics results)"
  "successfulTests (calculateMetrics results) = length (filter isSuccess results)"
  "totalTests (calculateMetrics results) = length results"
  "f1Score (calculateMetrics results) =
     (if length (filter isSuccess results) \<noteq> 0
      then jdiv (jmul (jmul (Fin 2) (successRate (calculateMetrics results)))
                      (successRate (calculateMetrics results)))
                (jadd (successRate (calculateMetrics results)) (successRate (calculateMetrics results)))
      else Fin 0)"
  by (simp_all add: calculateMetrics_def Let_def)

lemma f1_near_rate:
  assumes "1 / 2 ^ 32 \<le> q" "q \<le> 1"
  shows "\<exists>r f. rnd q = Fin r \<and> jdiv (jmul (jmul (Fin 2) (Fin r)) (Fin r)) (jadd (Fin r) (Fin r)) = Fin f
           \<and> 0 < r \<and> \<bar>f - r\<bar> \<le> r / 2 ^ 51"
proof -
  define u :: rat where "u = 1 / 2 ^ 53"
  have u: "0 < u" "u < 1 / 2" by (simp_all add: u_def)
  obtain r where r: "rnd q = Fin r" "q * (1 - u) \<le> r" "r \<le> q * (1 + u)"
    using rnd_relative[of q] assms unfolding u_def by (auto intro: order_trans[rotated])
  have rlo: "1 / 2 ^ 33 \<le> r"
  proof -
    have "1 / 2 ^ 33 \<le> (1 / 2 ^ 32) * (1 - u)" by (simp add: u_def)
    also have "\<dots> \<le> q * (1 - u)" using assms(1) u by (intro mult_right_mono) simp_all
    also have "\<dots> \<le> r" by (rule r(2))
    finally show ?thesis .
  qed
  have rhi: "r \<le> 2"
  proof -
    have "q * (1 + u) \<le> 1 * (1 + u)" using assms(2) u by (intro mult_right_mono) simp_all
    then have "q * (1 + u) \<le> 1 + u" by simp
    then show ?thesis using r(3) u by linarith
  qed
  have rpos: "0 < r" using rlo by (rule less_le_trans[rotated]) simp
  obtain p1 where p1: "rnd (2 * r) = Fin p1" "2 * r * (1 - u) \<le> p1" "p1 \<le> 2 * r * (1 + u)"
    using rnd_relative[of "2 * r"] rlo rhi unfolding u_def by (auto intro: order_trans[rotated])
  have p1lo: "1 / 2 ^ 33 \<le> p1"
  proof -
    have "1 / 2 ^ 33 \<le> r" by (rule rlo)
    also have "\<dots> \<le> 2 * r * (1 - u)" using rpos u by (simp add: algebra_simps)
    also have "\<dots> \<le> p1" by (rule p1(2))
    finally show ?thesis .
  qed
  have p1hi: "p1 \<le> 8"
  proof -
    have "2 * r * (1 + u) \<le> 2 * 2 * 2" using rhi rpos u by (intro mult_mono) simp_all
    then show ?thesis using p1(3) by linarith
  qed
  have p1pos: "0 < p1" using p1lo by (rule less_le_trans[rotated]) simp
  have x2lo: "1 / 2 ^ 100 \<le> p1 * r"
  proof -
    have "1 / 2 ^ 100 \<le> (1 / 2 ^ 33) * (1 / 2 ^ 33 :: rat)" by simp
    also have "\<dots> \<le> p1 * r" using p1lo rlo by (intro mult_mono) simp_all
    finally show ?thesis .
  qed
  have x2hi: "p1 * r \<le> 2 ^ 100"
  proof -
    have "p1 * r \<le> 8 * 2" using p1hi rhi p1pos rpos by (intro mult_mono) simp_all
    then show ?thesis by (rule order_trans) simp
  qed
  obtain p2 where p2: "rnd (p1 * r) = Fin p2" "p1 * r * (1 - u) \<le> p2" "p2 \<le> p1 * r * (1 + u)"
    using rnd_relative[OF x2lo x2hi] unfolding u_def by auto
  have x3: "r * (1 - u) \<le> p2 / p1" "p2 / p1 \<le> r * (1 + u)"
  proof -
    have "r * (1 - u) = (p1 * r * (1 - u)) / p1" using p1pos by simp
    also have "\<dots> \<le> p2 / p1" using p2(2) p1pos by (intro divide_right_mono) simp_all
    finally show "r * (1 - u) \<le> p2 / p1" .
    have "p2 / p1 \<le> (p1 * r * (1 + u)) / p1"
      using p2(3) p1pos by (intro divide_right_mono) simp_all
    also have "\<dots> = r * (1 + u)" using p1pos by simp
    finally show "p2 / p1 \<le> r * (1 + u)" .
  qed
  have x3lo: "1 / 2 ^ 100 \<le> p2 / p1"
  proof -
    have "1 / 2 ^ 100 \<le> (1 / 2 ^ 33) * (1 / 2 :: rat)" by simp
    also have "\<dots> \<le> r * (1 - u)" using rlo u by (intro mult_mono) simp_all
    also have "\<dots> \<le> p2 / p1" by (rule x3(1))
    finally show ?thesis .
  qed
  have x3pos: "0 < p2 / p1" using x3lo by (rule less_le_trans[rotated]) simp
  have x3hi: "p2 / p1 \<le> 2 ^ 100"
  proof -
    have "r * (1 + u) \<le> 2 * 2" using rhi rpos u by (intro mult_mono) simp_all
    then have "p2 / p1 \<le> 4" using x3(2) by linarith
    then show ?thesis by (rule order_trans) simp
  qed
  obtain f where f: "rnd (p2 / p1) = Fin f" "p2 / p1 * (1 - u) \<le> f" "f \<le> p2 / p1 * (1 + u)"
    using rnd_relative[OF x3lo x3hi] unfolding u_def by auto
  have fhi: "f \<le> r * (1 + u) * (1 + u)"
  proof -
    have "p2 / p1 * (1 + u) \<le> r * (1 + u) * (1 + u)"
      using x3(2) u by (intro mult_right_mono) simp_all
    then show ?thesis using f(3) by (rule order_trans[rotated])
  qed
  have flo: "r * (1 - u) * (1 - u) \<le> f"
  proof -
    have "r * (1 - u) * (1 - u) \<le> p2 / p1 * (1 - u)"
      using x3(1) u by (intro mult_right_mono) simp_all
    then show ?thesis using f(2) by (rule order_trans)
  qed
  have w: "(1 + u) * (1 + u) \<le> 1 + 1 / 2 ^ 51" "1 - 1 / 2 ^ 51 \<le> (1 - u) * (1 - u)"
    by (simp_all add: u_def)
  have up: "f \<le> r * (1 + 1 / 2 ^ 51)"
  proof -
    have "f \<le> r * ((1 + u) * (1 + u))" using fhi by (simp only: mult.assoc)
    also have "\<dots> \<le> r * (1 + 1 / 2 ^ 51)"
      using w(1) rpos by (intro mult_left_mono) simp_all
    finally show ?thesis .
  qed
  have down: "r * (1 - 1 / 2 ^ 51) \<le> f"
  proof -
    have "r * (1 - 1 / 2 ^ 51) \<le> r * ((1 - u) * (1 - u))"
      using w(2) rpos by (intro mult_left_mono) simp_all
    also have "\<dots> \<le> f" using flo by (simp only: mult.assoc)
    finally show ?thesis .
  qed
  have e: "r * (1 + 1 / 2 ^ 51) = r + r / 2 ^ 51" "r * (1 - 1 / 2 ^ 51) = r - r / 2 ^ 51"
    by (simp_all add: algebra_simps)
  have "\<bar>f - r\<bar> \<le> r / 2 ^ 51"
    using up down unfolding e by linarith
  moreover have "jdiv (jmul (jmul (Fin 2) (Fin r)) (Fin r)) (jadd (Fin r) (Fin r)) = Fin f"
  proof -
    have "r + r = 2 * r" by simp
    then have "jadd (Fin r) (Fin r) = Fin p1" using p1(1) by simp
    moreover have "jmul (jmul (Fin 2) (Fin r)) (Fin r) = Fin p2" using p1(1) p2(1) by simp
    ultimately show ?thesis using f(1) p1pos by simp
  qed
  ultimately show ?thesis using r(1) rpos by blast
qed


section \<open>Verified properties\<close>

text \<open>
  C1. The number branch at the tolerance boundary. For the pair (100, 109) the numbers are
  close (9 is at most 10.9), no difference is recorded and the comparison is a match. For
  the pair (100, 112) the numbers are not close (12 exceeds both 11.2 and 0.1), so one
  difference is recorded, with similarity \<open>1 - 12/112\<close>; the comparison is a match all the
  same, because the branch returns \<^verbatim>\<open>similarity > 0\<close> and not the closeness test.
\<close>

theorem tolerance_boundary:
  "areNumbersClose (Fin 100) (Fin 109)
   \<and> deepCompare rt (JNum (Fin 100)) (JNum (Fin 109)) [] [] = (True, [])
   \<and> areNumbersClose (Fin 100) (Fin 112) = False
   \<and> deepCompare rt (JNum (Fin 100)) (JNum (Fin 112)) [] [] =
       (True, [\<lparr>key = ''root'', expected = JNum (Fin 100), actual = JNum (Fin 112),
                 path = Some [],
                 similarity = Some (Fin (8042142191733029 / 9007199254740992))\<rparr>])"
  by (simp add: deepCompare.simps areNumbersClose_def numberSimilarity_def jsub_def c1_rnd
      pushDifference_def pathKey_def)

text \<open>
  The comparison of 100 with 112 is a match, against the claim that it is not.
\<close>

theorem tolerance_boundary_counterexample:
  "fst (deepCompare exampleRuntime (JNum (Fin 100)) (JNum (Fin 112)) [] []) = True"
  by (simp add: deepCompare.simps numberSimilarity_def jsub_def c1_rnd)

text \<open>
  C2. The averages of time and cost. \<^verbatim>\<open>calculateMetrics\<close> sums the times and costs of the
  finished cases only, but divides both sums by the number of all cases. With one finished
  case of 100 ms and cost 1 and one unfinished case, the averages are 50 and 0.5, not the
  100 and 1 of the finished case alone: the unfinished case lowers both averages.
\<close>

theorem unfinished_case_lowers_average:
  "averageTime (calculateMetrics [exampleFinished, exampleUnfinished]) = Fin 50
   \<and> averageCost (calculateMetrics [exampleFinished, exampleUnfinished]) = Fin (1 / 2)
   \<and> averageTime (calculateMetrics [exampleFinished]) = Fin 100
   \<and> averageCost (calculateMetrics [exampleFinished]) = Fin 1"
  by (simp add: calculateMetrics_averages exampleFinished_def exampleUnfinished_def sumOf_def
      num_of_nat_def rnd_100 rnd_50 rnd_half rnd_1)

text \<open>
  C3. \<^verbatim>\<open>evaluateTestCase\<close> returns a finished result for every input: the one error of the
  \<^verbatim>\<open>try\<close> block, a string that \<^verbatim>\<open>JSON.parse\<close> rejects, is caught. When either side is
  such a string, the result is not a success and has exactly one difference, whose key is
  \<^verbatim>\<open>parse_error\<close>.
\<close>

theorem parse_failure_is_reported:
  "isFinished (evaluateTestCase rt expd actl elapsed spent inp)
   \<and> ((typeof expd = TString \<and> jsonParse rt (the_str expd) = None)
        \<or> (typeof actl = TString \<and> jsonParse rt (the_str actl) = None)
       \<longrightarrow> isSuccess (evaluateTestCase rt expd actl elapsed spent inp) = False
         \<and> differences (evaluateTestCase rt expd actl elapsed spent inp) =
             Some [\<lparr>key = ''parse_error'', expected = expd, actual = actl,
                     path = Some [''root''], similarity = None\<rparr>])"
proof -
  have "compareResponses rt expd actl =
     \<lparr>isMatch = False, cmpDifferences = Some [parseErrorDifference expd actl],
      cmpMatchedFields = None, cmpMissingFields = None, cmpExtraFields = None\<rparr>"
    if "(typeof expd = TString \<and> jsonParse rt (the_str expd) = None)
        \<or> (typeof actl = TString \<and> jsonParse rt (the_str actl) = None)"
    using that by (intro compareResponses_failed[where err = SyntaxError]) (auto simp: parseIfString_def)
  then show ?thesis
    by (auto simp: evaluateTestCase_fields parseErrorDifference_def)
qed

theorem parse_failure_is_reported_witness:
  \<open>jsonParse exampleRuntime ''{"a":1'' = None
   \<and> isSuccess (evaluateTestCase exampleRuntime (JStr ''{"a":1'') (JObj [(''a'', JNum (Fin 1))])
         (Fin 1200) (Fin 0) ''prompt'') = False
   \<and> differences (evaluateTestCase exampleRuntime (JStr ''{"a":1'') (JObj [(''a'', JNum (Fin 1))])
         (Fin 1200) (Fin 0) ''prompt'') =
       Some [\<lparr>key = ''parse_error'', expected = JStr ''{"a":1'',
               actual = JObj [(''a'', JNum (Fin 1))], path = Some [''root''], similarity = None\<rparr>]\<close>
proof -
  have p: \<open>jsonParse exampleRuntime ''{"a":1'' = None\<close>
    by (simp add: exampleRuntime_def exampleParse_def)
  show ?thesis
    using p parse_failure_is_reported[of exampleRuntime \<open>JStr ''{"a":1''\<close>
        \<open>JObj [(''a'', JNum (Fin 1))]\<close> \<open>Fin 1200\<close> \<open>Fin 0\<close> \<open>''prompt''\<close>]
    by simp
qed

text \<open>
  C4. Comparing two strings that are not both empty: the similarity is 1 minus the
  Levenshtein distance divided by the length of the longer string; a difference is
  recorded exactly when the similarity is below 1; the comparison passes exactly when the
  similarity is above 0. So \<^verbatim>\<open>cat\<close> against \<^verbatim>\<open>hat\<close> passes and records a difference, with the
  similarity \<open>1 - 1/3\<close> as a double (within \<open>2^-52\<close> of \<open>2/3\<close>), and \<^verbatim>\<open>abc\<close> against
  \<^verbatim>\<open>xyz\<close> fails with similarity 0.
\<close>

theorem string_similarity:
  assumes "s1 \<noteq> [] \<or> s2 \<noteq> []"
  shows "calculateStringSimilarity s1 s2 =
           jsub (Fin 1) (jdiv (num_of_nat (levenshtein s1 s2))
                              (num_of_nat (max (length s1) (length s2))))
       \<and> deepCompare rt (JStr s1) (JStr s2) pth acc =
           (jlt (Fin 0) (calculateStringSimilarity s1 s2),
            if jlt (calculateStringSimilarity s1 s2) (Fin 1)
            then acc @ [\<lparr>key = pathKey pth, expected = JStr s1, actual = JStr s2,
                           path = Some pth,
                           similarity = Some (calculateStringSimilarity s1 s2)\<rparr>]
            else acc)"
  using deepCompare_strings[OF assms] calculateStringSimilarity_levenshtein
  by (simp add: pushDifference_def)

theorem string_similarity_witness:
  "deepCompare exampleRuntime (JStr ''cat'') (JStr ''hat'') [] [] =
     (True, [\<lparr>key = ''root'', expected = JStr ''cat'', actual = JStr ''hat'', path = Some [],
               similarity = Some (Fin (3002399751580331 / 4503599627370496))\<rparr>])
   \<and> deepCompare exampleRuntime (JStr ''abc'') (JStr ''xyz'') [] [] =
     (False, [\<lparr>key = ''root'', expected = JStr ''abc'', actual = JStr ''xyz'', path = Some [],
                similarity = Some (Fin 0)\<rparr>])
   \<and> \<bar>3002399751580331 / 4503599627370496 - 2 / 3 :: rat\<bar> < 1 / 2 ^ 52"
proof -
  have a: "calculateStringSimilarity ''cat'' ''hat'' = Fin (3002399751580331 / 4503599627370496)"
    by (simp add: calculateStringSimilarity_levenshtein levenshtein_cat_hat num_of_nat_def
        jsub_def rnd_1_3 rnd_1_minus_1_3)
  have b: "calculateStringSimilarity ''abc'' ''xyz'' = Fin 0"
    by (simp add: calculateStringSimilarity_levenshtein levenshtein_abc_xyz num_of_nat_def
        jsub_def rnd_1 rnd_zero)
  show ?thesis
    using string_similarity[of "''cat''" "''hat''" exampleRuntime "[]" "[]"]
      string_similarity[of "''abc''" "''xyz''" exampleRuntime "[]" "[]"]
    by (simp add: a b pathKey_def)
qed

text \<open>
  C5. Two arrays of different lengths: the comparison fails and appends exactly one
  difference, whose expected and actual are the placeholders \<^verbatim>\<open>Array(n)\<close> and whose
  similarity is the shorter length divided by the longer one. No element is compared:
  nothing else is appended.
\<close>

theorem array_length_mismatch:
  assumes "length es \<noteq> length as"
  shows "deepCompare rt (JArr es) (JArr as) pth acc =
     (False, acc @ [\<lparr>key = pathKey pth,
          expected = JStr (''Array('' @ show_nat (length es) @ '')''),
          actual = JStr (''Array('' @ show_nat (length as) @ '')''),
          path = Some pth,
          similarity = Some (jdiv (num_of_nat (min (length es) (length as)))
                                  (num_of_nat (max (length es) (length as))))\<rparr>])"
  using deepCompare_array_length[OF assms] by (simp add: pushDifference_def)

theorem array_length_mismatch_witness:
  "deepCompare exampleRuntime
      (JArr [JNum (Fin 1), JNum (Fin 2), JNum (Fin 3)]) (JArr [JNum (Fin 1), JNum (Fin 2)]) [] [] =
     (False, [\<lparr>key = ''root'', expected = JStr ''Array(3)'', actual = JStr ''Array(2)'',
                path = Some [], similarity = Some (rnd (2 / 3))\<rparr>])
   \<and> rnd (2 / 3) = Fin (6004799503160661 / 9007199254740992)"
  using array_length_mismatch[of "[JNum (Fin 1), JNum (Fin 2), JNum (Fin 3)]"
      "[JNum (Fin 1), JNum (Fin 2)]" exampleRuntime "[]" "[]"]
  by (simp add: pathKey_def num_of_nat_def rnd_2_3)

text \<open>
  C6. Two objects with unequal key sets. The object branch tests keys with \<^verbatim>\<open>in\<close>, which
  also finds inherited properties. The actual object below has the key \<^verbatim>\<open>constructor\<close>,
  which the expected one lacks; since every object inherits a property of that name, no
  extra key is found, the shared key is compared, and the comparison is a match without
  any difference.
\<close>

theorem inherited_key_hides_mismatch:
  "deepCompare exampleRuntime
      (JObj [(''a'', JNum (Fin 1))])
      (JObj [(''a'', JNum (Fin 1)), (''constructor'', JNum (Fin 5))]) [] [] = (True, [])
   \<and> set (keys_of (JObj [(''a'', JNum (Fin 1))]))
       \<noteq> set (keys_of (JObj [(''a'', JNum (Fin 1)), (''constructor'', JNum (Fin 5))]))"
  by (simp add: eval_object)


text \<open>
  The property holds for objects none of whose keys names an inherited property: unequal
  key sets give exactly one difference, which lists the keys of both sides and has the
  similarity (expected keys - missing keys) / max (expected keys, actual keys); the
  comparison fails and no value is compared.
\<close>

theorem key_set_mismatch:
  assumes "set (map fst ekvs) \<noteq> set (map fst akvs)"
    and "list_all (\<lambda>k. k \<notin> set (map fst (objectProto rt))) (map fst ekvs @ map fst akvs)"
  shows "deepCompare rt (JObj ekvs) (JObj akvs) pth acc =
     (False, acc @ [\<lparr>key = pathKey pth,
          expected = JStr (''Object('' @ join_with '', '' (map fst ekvs) @ '')''),
          actual = JStr (''Object('' @ join_with '', '' (map fst akvs) @ '')''),
          path = Some pth,
          similarity = Some (jdiv
            (num_of_nat (length ekvs - length (filter (\<lambda>k. k \<notin> set (map fst akvs)) (map fst ekvs))))
            (num_of_nat (max (length ekvs) (length akvs))))\<rparr>])"
proof -
  have own: "\<And>k. k \<in> set (map fst ekvs) \<union> set (map fst akvs) \<Longrightarrow> k \<notin> set (map fst (objectProto rt))"
    using assms(2) by (auto simp: list_all_iff)
  have hp: "has_property rt (JObj kvs) k \<longleftrightarrow> k \<in> set (map fst kvs)"
    if "k \<in> set (map fst ekvs) \<union> set (map fst akvs)" for k kvs
    using own[OF that] by (simp add: has_property_def)
  have m: "missingKeys rt (JObj ekvs) (JObj akvs) = filter (\<lambda>k. k \<notin> set (map fst akvs)) (map fst ekvs)"
    unfolding missingKeys_def keys_of_def entries_of.simps
    by (rule filter_cong[OF refl]) (simp add: hp)
  have x: "extraKeys rt (JObj ekvs) (JObj akvs) = filter (\<lambda>k. k \<notin> set (map fst ekvs)) (map fst akvs)"
    unfolding extraKeys_def keys_of_def entries_of.simps
    by (rule filter_cong[OF refl]) (simp add: hp)
  have "(\<exists>k \<in> set (map fst ekvs). k \<notin> set (map fst akvs)) \<or> (\<exists>k \<in> set (map fst akvs). k \<notin> set (map fst ekvs))"
    using assms(1) by blast
  then have mis: "0 < length (missingKeys rt (JObj ekvs) (JObj akvs)) \<or> 0 < length (extraKeys rt (JObj ekvs) (JObj akvs))"
    unfolding m x filter_nonempty .
  show ?thesis
    using deepCompare_object[of "JObj ekvs" "JObj akvs" rt pth acc] mis
    by (simp add: m keys_of_def pushDifference_def)
qed

theorem key_set_mismatch_witness:
  "deepCompare exampleRuntime
      (JObj [(''a'', JNum (Fin 1)), (''b'', JNum (Fin 2))])
      (JObj [(''a'', JNum (Fin 1)), (''c'', JNum (Fin 2))]) [] [] =
    (False, [\<lparr>key = ''root'', expected = JStr ''Object(a, b)'', actual = JStr ''Object(a, c)'',
               path = Some [], similarity = Some (Fin (1 / 2))\<rparr>])"
proof -
  have ne: "set (map fst [(''a'', JNum (Fin 1)), (''b'', JNum (Fin 2))])
      \<noteq> set (map fst [(''a'', JNum (Fin 1)), (''c'', JNum (Fin 2))])"
    by (simp add: doubleton_eq_iff)
  have own: "list_all (\<lambda>k. k \<notin> set (map fst (objectProto exampleRuntime)))
      (map fst [(''a'', JNum (Fin 1)), (''b'', JNum (Fin 2))]
       @ map fst [(''a'', JNum (Fin 1)), (''c'', JNum (Fin 2))])"
    by (simp add: exampleRuntime_def objectPrototype_def)
  show ?thesis
    using key_set_mismatch[OF ne own, of "[]" "[]"]
    by (simp add: pathKey_def num_of_nat_def rnd_half)
qed

text \<open>
  C7. The accuracy figures of a batch of fewer than \<open>2^32\<close> cases (the bound on the length
  of an array). \<^verbatim>\<open>precision\<close> and \<^verbatim>\<open>recall\<close> both equal \<^verbatim>\<open>successRate\<close>, which is
  \<^verbatim>\<open>successfulTests / totalTests\<close>. \<^verbatim>\<open>f1Score\<close> is 0 when no case succeeded. When a case
  succeeded, \<^verbatim>\<open>f1Score\<close> is the double computed as \<open>(2 * r * r) / (r + r)\<close> from the success
  rate \<open>r\<close>; it equals \<open>r\<close> up to rounding, differing from it by at most \<open>r / 2^51\<close>. For 3
  successes of 4 all four figures are 0.75.
\<close>

theorem accuracy_figures:
  assumes "length results < 2 ^ 32"
  shows "precision (calculateMetrics results) = successRate (calculateMetrics results)
    \<and> recall (calculateMetrics results) = successRate (calculateMetrics results)
    \<and> successRate (calculateMetrics results) =
        jdiv (num_of_nat (successfulTests (calculateMetrics results)))
             (num_of_nat (totalTests (calculateMetrics results)))
    \<and> (successfulTests (calculateMetrics results) = 0 \<longrightarrow>
          f1Score (calculateMetrics results) = Fin 0)
    \<and> (0 < successfulTests (calculateMetrics results) \<longrightarrow>
          (\<exists>r f. successRate (calculateMetrics results) = Fin r
                 \<and> f1Score (calculateMetrics results) = Fin f
                 \<and> 0 < r \<and> \<bar>f - r\<bar> \<le> r / 2 ^ 51))"
proof -
  define s where "s = length (filter isSuccess results)"
  define t where "t = length results"
  have st: "s \<le> t" by (simp add: s_def t_def)
  have near: "\<exists>r f. successRate (calculateMetrics results) = Fin r
                 \<and> f1Score (calculateMetrics results) = Fin f
                 \<and> 0 < r \<and> \<bar>f - r\<bar> \<le> r / 2 ^ 51" if "0 < s"
  proof -
    have t: "0 < t" "t < 2 ^ 32"
    proof -
      show "0 < t" using that st by linarith
      show "t < 2 ^ 32" using assms by (simp add: t_def)
    qed
    have q1: "(of_nat s :: rat) / of_nat t \<le> 1" using st t by (simp add: divide_le_eq_1)
    have "(1::rat) / 2 ^ 32 \<le> 1 / of_nat t"
    proof -
      have "(of_nat t :: rat) \<le> of_nat (2 ^ 32)" using t(2) by (simp only: of_nat_le_iff)
      then show ?thesis using t(1) by (simp add: frac_le)
    qed
    also have "\<dots> \<le> of_nat s / of_nat t"
      using that t(1) by (intro divide_right_mono) simp_all
    finally have q0: "(1::rat) / 2 ^ 32 \<le> of_nat s / of_nat t" .
    obtain r f where rf: "rnd (of_nat s / of_nat t) = Fin r"
      "jdiv (jmul (jmul (Fin 2) (Fin r)) (Fin r)) (jadd (Fin r) (Fin r)) = Fin f"
      "0 < r" "\<bar>f - r\<bar> \<le> r / 2 ^ 51"
      using f1_near_rate[OF q0 q1] by blast
    have rate: "successRate (calculateMetrics results) = Fin r"
      using rf(1) t(1) by (simp add: calculateMetrics_accuracy(1) num_of_nat_def s_def t_def)
    have "f1Score (calculateMetrics results) = Fin f"
      using rf(2) that by (simp add: calculateMetrics_accuracy(6) rate s_def)
    then show ?thesis using rate rf(3,4) by blast
  qed
  show ?thesis
    using near by (simp add: calculateMetrics_accuracy s_def)
qed

theorem accuracy_figures_witness:
  "length [exampleAmountPassed, exampleAmountPassed, exampleAmountPassed, exampleAmountFailed] < 2 ^ 32
   \<and> precision (calculateMetrics [exampleAmountPassed, exampleAmountPassed, exampleAmountPassed,
         exampleAmountFailed]) = Fin (3 / 4)
   \<and> recall (calculateMetrics [exampleAmountPassed, exampleAmountPassed, exampleAmountPassed,
         exampleAmountFailed]) = Fin (3 / 4)
   \<and> successRate (calculateMetrics [exampleAmountPassed, exampleAmountPassed, exampleAmountPassed,
         exampleAmountFailed]) = Fin (3 / 4)
   \<and> f1Score (calculateMetrics [exampleAmountPassed, exampleAmountPassed, exampleAmountPassed,
         exampleAmountFailed]) = Fin (3 / 4)"
proof -
  have l: "length [exampleAmountPassed, exampleAmountPassed, exampleAmountPassed, exampleAmountFailed]
      < 2 ^ 32" by simp
  show ?thesis
    using accuracy_figures[OF l]
    by (simp add: calculateMetrics_accuracy exampleAmountPassed_def exampleAmountFailed_def
        num_of_nat_def rnd_three_quarters_rate rnd_three_quarters_double rnd_three_quarters_product)
qed

text \<open>
  With 1 success of 5 the success rate is the double 0.2 and \<^verbatim>\<open>f1Score\<close> is the next double,
  0.20000000000000004: the two are not equal.
\<close>

theorem accuracy_figures_counterexample:
  "f1Score (calculateMetrics [exampleAmountPassed, exampleAmountFailed, exampleAmountFailed,
       exampleAmountFailed, exampleAmountFailed])
   \<noteq> successRate (calculateMetrics [exampleAmountPassed, exampleAmountFailed, exampleAmountFailed,
       exampleAmountFailed, exampleAmountFailed])"
  by (simp add: calculateMetrics_accuracy exampleAmountPassed_def exampleAmountFailed_def
      num_of_nat_def rnd_fifth_rate rnd_fifth_double rnd_fifth_product rnd_fifth_quotient)

text \<open>
  C8. Per-field success rates, for a batch whose cases name no field twice in their
  \<^verbatim>\<open>matchedFields\<close>. A field that no case's \<^verbatim>\<open>matchedFields\<close> contain has no entry. Any other
  field has the rate whose denominator is the number of cases whose \<^verbatim>\<open>matchedFields\<close>
  contain it and whose numerator is the number of those cases that succeeded as a whole.
  Two cases with \<^verbatim>\<open>amount\<close>, one passed and one failed, give the rate 0.5.
\<close>

theorem field_success_rates:
  assumes "list_all distinctFields results"
  shows "fieldSuccessRates (calculateMetrics results) f =
     (if fieldCases f results = [] then None
      else Some (jdiv (num_of_nat (length (filter isSuccess (fieldCases f results))))
                      (num_of_nat (length (fieldCases f results)))))"
  using map_of_fold_countCase[OF assms, of "[]" f]
  by (simp add: fieldSuccessRates_map countFields_fold countsOf_def)

theorem field_success_rates_witness:
  "list_all distinctFields [exampleAmountPassed, exampleAmountFailed]
   \<and> fieldSuccessRates (calculateMetrics [exampleAmountPassed, exampleAmountFailed]) ''amount''
       = Some (Fin (1 / 2))
   \<and> fieldSuccessRates (calculateMetrics [exampleAmountPassed, exampleAmountFailed]) ''date''
       = None"
proof -
  have d: "list_all distinctFields [exampleAmountPassed, exampleAmountFailed]"
    by (simp add: distinctFields_def exampleAmountPassed_def exampleAmountFailed_def)
  show ?thesis
    using d field_success_rates[OF d, of "''amount''"] field_success_rates[OF d, of "''date''"]
    by (simp add: fieldCases_def exampleAmountPassed_def exampleAmountFailed_def num_of_nat_def
        rnd_half)
qed

text \<open>
  C9. Every difference that a comparison produces has a similarity from 0 to 1 when it
  has one: those of \<^verbatim>\<open>deepCompare\<close> (number, string, array length, object keys and the
  branches that record 0) and those of a test case's result, where a parse error has no
  similarity.
\<close>

theorem similarity_in_unit_interval:
  "list_all similarityInRange (snd (deepCompare rt expd actl pth []))
   \<and> list_all similarityInRange
        (case differences (evaluateTestCase rt expd actl elapsed spent inp) of
           None \<Rightarrow> [] | Some ds \<Rightarrow> ds)"
proof -
  have a: "list_all similarityInRange (snd (deepCompare rt e a p []))" for e a p
    by (rule deepCompare_similarity(1)) simp
  have "list_all similarityInRange
        (case cmpDifferences (compareResponses rt expd actl) of None \<Rightarrow> [] | Some ds \<Rightarrow> ds)"
  proof (cases "parseIfString rt expd")
    case (Inl err)
    then show ?thesis
      using compareResponses_failed[of rt expd err actl]
      by (simp add: parseErrorDifference_def similarityInRange_def)
  next
    case e: (Inr expectedObj)
    show ?thesis
    proof (cases "parseIfString rt actl")
      case (Inl err)
      then show ?thesis
        using compareResponses_failed[of rt expd err actl]
        by (simp add: parseErrorDifference_def similarityInRange_def)
    next
      case (Inr actualObj)
      then show ?thesis
        using compareResponses_parsed(2)[OF e Inr] a[of expectedObj actualObj "[]"]
        by (simp add: nonEmpty_def)
    qed
  qed
  then show ?thesis using a by (simp add: evaluateTestCase_fields)
qed

text \<open>
  C10. When one side of a comparison is falsy (the number 0, the empty string, false,
  null, undefined) and the other is truthy, the comparison fails at once with a
  difference of similarity 0, before any branch that looks at the types. So 0 against 0.05
  fails, although the two numbers are within the absolute tolerance.
\<close>

theorem falsy_side_fails:
  assumes "truthy expd \<noteq> truthy actl"
  shows "deepCompare rt expd actl pth acc =
           (False, acc @ [\<lparr>key = pathKey pth, expected = expd, actual = actl,
                            path = Some pth, similarity = Some (Fin 0)\<rparr>])
         \<and> list_all (\<lambda>v. truthy v = False)
              [JNum (Fin 0), JStr [], JBool False, JNull, JUndefined]"
  using deepCompare_falsy[OF assms] by (simp add: pushDifference_def)

theorem falsy_side_fails_witness:
  "areNumbersClose (Fin 0) (rnd (1 / 20))
   \<and> deepCompare exampleRuntime (JNum (Fin 0)) (JNum (rnd (1 / 20))) [] [] =
       (False, [\<lparr>key = ''root'', expected = JNum (Fin 0), actual = JNum (rnd (1 / 20)),
                  path = Some [], similarity = Some (Fin 0)\<rparr>])"
proof -
  have t: "truthy (JNum (Fin 0)) \<noteq> truthy (JNum (rnd (1 / 20)))"
    by (simp add: rnd_twentieth)
  have c: "areNumbersClose (Fin 0) (rnd (1 / 20))"
    by (simp add: areNumbersClose_def jsub_def rnd_tenth rnd_twentieth rnd_neg
        rnd_twentieth_exact rnd_tenth_of_twentieth)
  show ?thesis
    using falsy_side_fails[OF t, of exampleRuntime "[]" "[]"] c by (simp add: pathKey_def)
qed

end
